theory Spec2Isabelle
  imports Complex_Main
begin

section \<open>File splitting and the download handler (D5dl.py)\<close>

type_synonym path = string
type_synonym bytes = string
type_synonym fs = "path \<rightharpoonup> bytes"

subsection \<open>The buffered writer behind \<^verbatim>\<open>open(part_path, 'wb')\<close>\<close>

text \<open>
  \<^verbatim>\<open>open(path, 'wb')\<close> returns a buffered writer. What \<^verbatim>\<open>os.path.getsize\<close> sees while
  the file is still open is only what has reached the file (\<open>disk\<close>); the rest waits in
  the writer's buffer (\<open>buf\<close>) until a flush or the close at the end of the
  \<^verbatim>\<open>with\<close> block. \<open>bwrite\<close> is the writer's \<^verbatim>\<open>write\<close>: data that fits into the free
  room of the buffer is only copied there; otherwise the buffer is flushed first, data
  longer than the buffer goes to the file directly and shorter data starts the new
  buffer. The buffer size (8192 on a stock interpreter, or the block size of the device)
  is a parameter.
\<close>

record writer =
  disk :: bytes
  buf :: bytes

definition new_writer :: writer where
  "new_writer = \<lparr>disk = [], buf = []\<rparr>"

definition bwrite :: "nat \<Rightarrow> writer \<Rightarrow> bytes \<Rightarrow> writer" where
  "bwrite bufsize w data =
     (if length data \<le> bufsize - length (buf w) then w\<lparr>buf := buf w @ data\<rparr>
      else if bufsize < length data then \<lparr>disk = disk w @ buf w @ data, buf = []\<rparr>
      else \<lparr>disk = disk w @ buf w, buf = data\<rparr>)"

definition closed_content :: "writer \<Rightarrow> bytes" where
  "closed_content w = disk w @ buf w"

subsection \<open>Part names: \<^verbatim>\<open>f"{file_path}.part{part_num:03d}"\<close>\<close>

definition digit_char :: "nat \<Rightarrow> char" where
  "digit_char d = ''0123456789'' ! d"

function str_nat :: "nat \<Rightarrow> string" where
  "str_nat n = (if n < 10 then [digit_char n] else str_nat (n div 10) @ [digit_char (n mod 10)])"
  by pat_completeness auto
termination
  by (relation "measure (\<lambda>n. n)") auto

declare str_nat.simps [simp del]

definition fmt03 :: "nat \<Rightarrow> string" where
  "fmt03 n = replicate (3 - length (str_nat n)) (CHR ''0'') @ str_nat n"

definition part_name :: "path \<Rightarrow> nat \<Rightarrow> path" where
  "part_name file_path part_num = file_path @ ''.part'' @ fmt03 part_num"

subsection \<open>\<^verbatim>\<open>split_file\<close>\<close>

text \<open>
  The inner loop of \<^verbatim>\<open>split_file\<close> (source lines 89-94): while \<open>remaining > 0\<close>, read at
  most 100 MiB from the input, stop at end of file, write the block to the part and count
  it down. \<open>inp\<close> is what is left of the input file; a read of \<open>n\<close> bytes from a regular
  file returns \<open>take n\<close> of it. The result is the rest of the input, the final
  \<open>remaining\<close> and the part's writer.
\<close>

function read_part :: "nat \<Rightarrow> bytes \<Rightarrow> int \<Rightarrow> writer \<Rightarrow> bytes \<times> int \<times> writer" where
  "read_part bufsize inp remaining w =
     (if 0 < remaining then
        (let data = take (nat (min remaining (100 * 1024 * 1024))) inp in
         if data = [] then (inp, remaining, w)
         else read_part bufsize (drop (length data) inp) (remaining - int (length data))
                (bwrite bufsize w data))
      else (inp, remaining, w))"
  by pat_completeness auto
termination
  by (relation "measure (\<lambda>(bufsize, inp, remaining, w). nat remaining)") auto

declare read_part.simps [simp del]

lemma read_part_consumes:
  "read_part bufsize inp remaining w = (inp', remaining', w') \<Longrightarrow>
   length inp' \<le> length inp \<and>
   length (closed_content w') = length (closed_content w) + (length inp - length inp')"
proof (induction bufsize inp remaining w rule: read_part.induct)
  case (1 bufsize inp remaining w)
  show ?case
  proof (cases "0 < remaining \<and> take (nat (min remaining (100 * 1024 * 1024))) inp \<noteq> []")
    case False
    with "1.prems" show ?thesis
      by (auto simp: read_part.simps [of bufsize inp remaining w] Let_def split: if_splits)
  next
    case True
    define data where "data = take (nat (min remaining (100 * 1024 * 1024))) inp"
    from True have d: "data \<noteq> []" and r: "0 < remaining" by (simp_all add: data_def)
    from "1.prems" True
    have rec: "read_part bufsize (drop (length data) inp) (remaining - int (length data))
                 (bwrite bufsize w data) = (inp', remaining', w')"
      by (simp add: read_part.simps [of bufsize inp remaining w] Let_def data_def)
    have ih: "length inp' \<le> length (drop (length data) inp) \<and>
        length (closed_content w') = length (closed_content (bwrite bufsize w data)) +
          (length (drop (length data) inp) - length inp')"
      using "1.IH" [OF r data_def d rec] .
    have w: "length (closed_content (bwrite bufsize w data)) =
        length (closed_content w) + length data"
      by (simp add: closed_content_def bwrite_def)
    have l: "length data \<le> length inp" by (simp add: data_def)
    from ih w l show ?thesis by auto
  qed
qed

lemma read_part_progress:
  assumes "(inp', remaining', w') = read_part bufsize inp remaining new_writer"
    and "disk w' \<noteq> []"
  shows "length inp' < length inp"
proof -
  from read_part_consumes [OF assms(1) [symmetric]]
  have "length inp' \<le> length inp"
    and "length (disk w') + length (buf w') = length inp - length inp'"
    by (simp_all add: closed_content_def new_writer_def)
  moreover from assms(2) have "0 < length (disk w')" by simp
  ultimately show ?thesis by linarith
qed

text \<open>
  The outer loop (source lines 85-104). Each round opens the next part for writing, fills
  it with \<open>read_part\<close>, and then, still inside the \<^verbatim>\<open>with\<close> block of the part,
  asks the file system for the part's size: a size of zero removes the part and leaves the
  loop; otherwise the part's path is recorded, and the loop goes on only when the part
  was filled completely (\<open>remaining\<close> is zero). Closing the part flushes the buffer.
\<close>

function split_loop ::
  "nat \<Rightarrow> path \<Rightarrow> int \<Rightarrow> bytes \<Rightarrow> nat \<Rightarrow> path list \<Rightarrow> fs \<Rightarrow> path list \<times> fs" where
  "split_loop bufsize file_path chunk_size inp part_num part_paths files =
     (let part_path = part_name file_path part_num in
      case read_part bufsize inp chunk_size new_writer of
        (inp', remaining, w) \<Rightarrow>
          if length (disk w) = 0 then (part_paths, files(part_path := None))
          else if 0 < remaining
            then (part_paths @ [part_path], files(part_path \<mapsto> closed_content w))
            else split_loop bufsize file_path chunk_size inp' (part_num + 1)
                   (part_paths @ [part_path]) (files(part_path \<mapsto> closed_content w)))"
  by pat_completeness auto
termination
  apply (relation "measure (\<lambda>(bufsize, file_path, chunk_size, inp, part_num, part_paths, files).
    length inp)")
   apply simp
  apply (auto dest: read_part_progress)
  done

declare split_loop.simps [simp del]

datatype error = FileNotFoundError path | ValueError string | TransportError | WriteError string

definition split_file :: "nat \<Rightarrow> fs \<Rightarrow> path \<Rightarrow> int \<Rightarrow> error + path list \<times> fs" where
  "split_file bufsize files file_path chunk_size =
     (case files file_path of
        None \<Rightarrow> Inl (FileNotFoundError file_path)
      | Some content \<Rightarrow> Inr (split_loop bufsize file_path chunk_size content 0 [] files))"

subsection \<open>The upload phase of \<^verbatim>\<open>ytdl_handler\<close> (source lines 201-263)\<close>

text \<open>
  The model starts where the handler holds the path of the downloaded file. The transport
  is an oracle \<open>tx\<close>: \<open>tx p\<close> says whether sending the file at \<open>p\<close> returns normally; a
  send that does not raises, and the exception leaves the \<^verbatim>\<open>try\<close> block at once. The
  trace records every call the handler makes to the transport and every removal of a file.
\<close>

datatype dl_event = SendDocument path bool | SendMedia path bool | Remove path | ReplyError

text \<open>The loop over the parts (source lines 205-213): send the part, then remove it.\<close>

fun send_parts ::
  "(path \<Rightarrow> bool) \<Rightarrow> path list \<Rightarrow> fs \<Rightarrow> dl_event list \<Rightarrow> bool \<times> fs \<times> dl_event list" where
  "send_parts tx [] files tr = (True, files, tr)"
| "send_parts tx (part # rest) files tr =
     (if files part \<noteq> None \<and> tx part
      then send_parts tx rest (files(part := None)) (tr @ [SendDocument part True, Remove part])
      else (False, files, tr @ [SendDocument part False]))"

definition ytdl_handler :: "nat \<Rightarrow> (path \<Rightarrow> bool) \<Rightarrow> path \<Rightarrow> fs \<Rightarrow> fs \<times> dl_event list" where
  "ytdl_handler bufsize tx file_path files =
     (case files file_path of
        None \<Rightarrow> (files, [ReplyError])
      | Some content \<Rightarrow>
          if 2 * 1024 ^ 3 < length content then
            (case split_file bufsize files file_path (2000 * 1024 * 1024) of
               Inl err \<Rightarrow> (files, [ReplyError])
             | Inr (split_parts, files1) \<Rightarrow>
                 (case send_parts tx split_parts files1 [] of
                    (True, files2, tr) \<Rightarrow> (files2(file_path := None), tr @ [Remove file_path])
                  | (False, files2, tr) \<Rightarrow> (files2, tr @ [ReplyError])))
          else if tx file_path
            then (files(file_path := None), [SendMedia file_path True, Remove file_path])
            else (files, [SendMedia file_path False, ReplyError]))"

section \<open>The tracker's state and its collaborators (d5.py, d5c.py)\<close>

type_synonym user_id = int
type_synonym url = string

text \<open>
  A document of the \<^verbatim>\<open>stats\<close> collection. Its counters live under the field paths
  \<^verbatim>\<open>stats.<event>.success\<close> and \<^verbatim>\<open>stats.<event>.failure\<close>; a path that was never incremented
  is absent from the document (\<open>None\<close>), since \<^verbatim>\<open>$inc\<close> with upsert creates only the path
  it increments.
\<close>

record stat_doc =
  st_user_id :: user_id
  st_url :: url
  st_counters :: "string \<times> bool \<rightharpoonup> nat"

text \<open>
  A document of the \<^verbatim>\<open>urls\<close> collection. Every field the code reads through
  \<^verbatim>\<open>tracked_data.get(key, default)\<close> holds its value or that default.
\<close>

record tracked =
  night_mode :: bool
  content_hash :: string
  content :: string
  sent_hashes :: "string list"
  last_checked :: nat

record archive_entry =
  a_user_id :: user_id
  a_url :: url
  a_content :: string
  a_timestamp :: nat

record resource =
  res_url :: string
  res_type :: string
  res_hash :: string

datatype send_method = send_document | send_photo | send_audio | send_video

datatype event =
    HttpGet url
  | YtdlDownload url path
  | DirectDownload url path
  | MediaSend send_method user_id path resource bool
  | MessageSend user_id string bool

record sys =
  urls :: "user_id \<times> url \<rightharpoonup> tracked"
  stats :: "stat_doc list"
  archives :: "archive_entry list"
  trace :: "event list"

text \<open>
  Library functions and configuration constants that the sources use and do not define
  are parameters: \<open>env\<close> holds those that are the same in every cycle.
\<close>

record env =
  urljoin :: "string \<Rightarrow> string \<Rightarrow> string"
  unquote :: "string \<Rightarrow> string"
  splitext_lower :: "string \<Rightarrow> string"
  SUPPORTED_EXTENSIONS :: "(string \<times> string list) list"
  md5_hex :: "string \<Rightarrow> string"
  sha256_hex :: "string \<Rightarrow> string"
  unified_diff :: "string \<Rightarrow> string \<Rightarrow> string"
  MAX_MESSAGE_LENGTH :: nat
  MAX_FILE_SIZE :: nat

text \<open>
  \<open>world\<close> holds what the outside answers during one check cycle: the clock, the web
  server (\<open>None\<close> when the request raises), the filter rules, the two downloaders, the size
  of a downloaded file, and whether a send of the transport returns normally.
\<close>

record tag =
  tag_name :: string
  href :: "string option"
  src :: "string option"

record page =
  body :: string
  tags :: "tag list"

record world =
  hour :: nat
  now :: nat
  http_get :: "url \<Rightarrow> page option"
  apply_filters :: "resource \<Rightarrow> user_id \<Rightarrow> bool"
  ytdl_download :: "url \<Rightarrow> path \<Rightarrow> bool"
  direct_download :: "url \<Rightarrow> path \<Rightarrow> bool"
  getsize :: "path \<Rightarrow> nat"
  media_ok :: "send_method \<Rightarrow> user_id \<Rightarrow> path \<Rightarrow> bool"
  text_ok :: "user_id \<Rightarrow> string \<Rightarrow> bool"
  tmpdir :: path

type_synonym 'a action = "sys \<Rightarrow> (error + 'a) \<times> sys"

definition then_do :: "'a action \<Rightarrow> ('a \<Rightarrow> 'b action) \<Rightarrow> 'b action" where
  "then_do m f s = (case m s of (Inl err, s') \<Rightarrow> (Inl err, s') | (Inr a, s') \<Rightarrow> f a s')"

definition no_op :: "unit action" where
  "no_op s = (Inr (), s)"

definition emit :: "event list \<Rightarrow> sys \<Rightarrow> sys" where
  "emit evs s = s\<lparr>trace := trace s @ evs\<rparr>"

section \<open>Statistics (d5c.py, lines 11-59)\<close>

definition valid_events :: "string list" where
  "valid_events = [''downloads'', ''checks'', ''content_changes'']"

text \<open>
  \<^verbatim>\<open>update_one({'user_id', 'url'}, {'$inc': {path: 1}}, upsert=True)\<close>: the first document
  of the user and URL gets the counter at the path raised by one (an absent counter
  becomes 1); when there is no such document, one is inserted with that counter alone.
\<close>

fun inc_counter :: "user_id \<Rightarrow> url \<Rightarrow> string \<times> bool \<Rightarrow> stat_doc list \<Rightarrow> stat_doc list" where
  "inc_counter user link k [] =
     [\<lparr>st_user_id = user, st_url = link, st_counters = [k \<mapsto> 1]\<rparr>]"
| "inc_counter user link k (d # ds) =
     (if st_user_id d = user \<and> st_url d = link
      then d\<lparr>st_counters := (st_counters d)(k \<mapsto> (case st_counters d k of None \<Rightarrow> 1 | Some n \<Rightarrow> n + 1))\<rparr> # ds
      else d # inc_counter user link k ds)"

definition track_statistics :: "string \<Rightarrow> user_id \<Rightarrow> url \<Rightarrow> bool \<Rightarrow> unit action" where
  "track_statistics event_type user link success s =
     (if event_type \<in> set valid_events
      then (Inr (), s\<lparr>stats := inc_counter user link (event_type, success) (stats s)\<rparr>)
      else (Inl (ValueError (''Invalid event type: '' @ event_type)), s))"

text \<open>
  The aggregation pipeline of \<^verbatim>\<open>get_statistics\<close>. \<^verbatim>\<open>$match\<close> keeps the user's documents;
  \<^verbatim>\<open>$group\<close> with \<^verbatim>\<open>_id: None\<close> makes one group of them, and none when there is no
  document. \<^verbatim>\<open>$sum\<close> over a field path skips the documents that lack the field
  (\<open>field_sum\<close>). \<^verbatim>\<open>$add\<close> yields null when one of its operands is a missing field
  (\<open>add_fields\<close>), and \<^verbatim>\<open>$sum\<close> skips a null. \<^verbatim>\<open>$divide\<close> is modelled on the rationals.
\<close>

record summary =
  total_tracked :: nat
  success_downloads :: nat
  failed_downloads :: nat
  uptime_percentage :: rat

definition or_zero :: "nat option \<Rightarrow> nat" where
  "or_zero v = (case v of None \<Rightarrow> 0 | Some n \<Rightarrow> n)"

definition field_sum :: "string \<times> bool \<Rightarrow> stat_doc list \<Rightarrow> nat" where
  "field_sum k docs = sum_list (map (\<lambda>d. or_zero (st_counters d k)) docs)"

definition add_fields :: "stat_doc \<Rightarrow> string \<times> bool \<Rightarrow> string \<times> bool \<Rightarrow> nat option" where
  "add_fields d k1 k2 =
     (case st_counters d k1 of
        None \<Rightarrow> None
      | Some a \<Rightarrow> (case st_counters d k2 of None \<Rightarrow> None | Some b \<Rightarrow> Some (a + b)))"

definition get_statistics :: "user_id \<Rightarrow> sys \<Rightarrow> summary option" where
  "get_statistics user s =
     (case filter (\<lambda>d. st_user_id d = user) (stats s) of
        [] \<Rightarrow> None
      | d # ds \<Rightarrow>
          (let docs = d # ds;
               total_checks = sum_list (map (\<lambda>d.
                 or_zero (add_fields d (''checks'', True) (''checks'', False))) docs);
               success_checks = field_sum (''checks'', True) docs
           in Some \<lparr>total_tracked = length docs,
                    success_downloads = field_sum (''downloads'', True) docs,
                    failed_downloads = field_sum (''downloads'', False) docs,
                    uptime_percentage =
                      (if total_checks = 0 then 0
                       else of_nat success_checks / of_nat total_checks)\<rparr>))"

section \<open>Resource extraction\<close>

subsection \<open>\<^verbatim>\<open>get_webpage_content\<close> (d5.py, lines 190-221)\<close>

text \<open>
  The page is what the parser finds: its text and its tags in document order. A tag
  yields a link when it is an anchor with a non-empty \<^verbatim>\<open>href\<close>, or else when it has a
  non-empty \<^verbatim>\<open>src\<close>; the link is joined to the page's URL and percent-decoded. The first
  file type of \<^verbatim>\<open>SUPPORTED_EXTENSIONS\<close> that lists the link's extension classifies it. The
  source also creates a set \<^verbatim>\<open>seen_hashes\<close> and never reads or writes it again. A request
  that raises is caught, and the function returns the empty text and no resources.
\<close>

definition truthy :: "string option \<Rightarrow> bool" where
  "truthy v = (case v of None \<Rightarrow> False | Some x \<Rightarrow> x \<noteq> [])"

definition tag_url :: "env \<Rightarrow> url \<Rightarrow> tag \<Rightarrow> string option" where
  "tag_url e link t =
     (if tag_name t = ''a'' \<and> truthy (href t) then Some (unquote e (urljoin e link (the (href t))))
      else if truthy (src t) then Some (unquote e (urljoin e link (the (src t))))
      else None)"

definition classify :: "env \<Rightarrow> string \<Rightarrow> string option" where
  "classify e ext =
     map_option fst (find (\<lambda>(file_type, extensions). ext \<in> set extensions) (SUPPORTED_EXTENSIONS e))"

definition tag_resource :: "env \<Rightarrow> url \<Rightarrow> tag \<Rightarrow> resource list" where
  "tag_resource e link t =
     (case tag_url e link t of
        None \<Rightarrow> []
      | Some resource_url \<Rightarrow>
          if resource_url = [] then []
          else (case classify e (splitext_lower e resource_url) of
                  None \<Rightarrow> []
                | Some file_type \<Rightarrow>
                    [\<lparr>res_url = resource_url, res_type = file_type,
                      res_hash = md5_hex e resource_url\<rparr>]))"

definition get_webpage_content :: "env \<Rightarrow> world \<Rightarrow> url \<Rightarrow> string \<times> resource list" where
  "get_webpage_content e w link =
     (case http_get w link of
        None \<Rightarrow> ([], [])
      | Some p \<Rightarrow>
          (body p,
           concat (map (tag_resource e link)
             (filter (\<lambda>t. tag_name t \<in> set [''a'', ''img'', ''audio'', ''video'', ''source''])
                (tags p)))))"

subsection \<open>\<^verbatim>\<open>extract_documents\<close> (b.py, lines 91-115)\<close>

text \<open>
  \<open>anchor\<close> is an \<^verbatim>\<open>a\<close> tag that has an \<^verbatim>\<open>href\<close>. The documents are collected in page
  order and then passed through a dictionary keyed by URL: a dictionary keeps a key at
  the position of its first insertion and the value of its last.
\<close>

record anchor =
  a_href :: string
  a_text :: string

record document =
  doc_name :: string
  doc_url :: string

record benv =
  requote_uri :: "string \<Rightarrow> string"
  b_urljoin :: "string \<Rightarrow> string \<Rightarrow> string"
  lower :: "string \<Rightarrow> string"
  strip :: "string \<Rightarrow> string"
  stem :: "string \<Rightarrow> string"

definition document_extensions :: "string list" where
  "document_extensions =
     [''.pdf'', ''.doc'', ''.docx'', ''.xls'', ''.xlsx'', ''.ppt'', ''.pptx'', ''.txt'']"

definition endswith :: "string \<Rightarrow> string \<Rightarrow> bool" where
  "endswith x ext = (length ext \<le> length x \<and> drop (length x - length ext) x = ext)"

fun dict_put :: "(string \<times> 'v) list \<Rightarrow> string \<Rightarrow> 'v \<Rightarrow> (string \<times> 'v) list" where
  "dict_put [] k v = [(k, v)]"
| "dict_put ((k', v') # kvs) k v =
     (if k' = k then (k, v) # kvs else (k', v') # dict_put kvs k v)"

definition link_document :: "benv \<Rightarrow> url \<Rightarrow> anchor \<Rightarrow> document list" where
  "link_document b base_url link =
     (let absolute_url = b_urljoin b base_url (requote_uri b (a_href link));
          link_text = strip b (a_text link)
      in if list_ex (endswith (lower b absolute_url)) document_extensions
         then [\<lparr>doc_name = (if link_text = [] then stem b absolute_url else link_text),
                 doc_url = absolute_url\<rparr>]
         else [])"

definition extract_documents :: "benv \<Rightarrow> anchor list \<Rightarrow> url \<Rightarrow> document list" where
  "extract_documents b links base_url =
     map snd (foldl (\<lambda>d doc. dict_put d (doc_url doc) doc) []
       (concat (map (link_document b base_url) links)))"

section \<open>Delivery and the check cycle (d5c.py, lines 61-184)\<close>

subsection \<open>\<^verbatim>\<open>send_media\<close>\<close>

text \<open>
  The result is the function's return value and the calls it made, in order. Every
  exception inside is caught and turned into \<open>False\<close>. The caption's text is not modelled;
  the send event carries the resource that the caption describes.
\<close>

fun basename :: "string \<Rightarrow> string" where
  "basename [] = []"
| "basename (c # cs) = (if CHR ''/'' \<in> set cs then basename cs else if c = CHR ''/'' then cs else c # cs)"

definition send_methods :: "string \<Rightarrow> send_method" where
  "send_methods t =
     (if t = ''pdf'' then send_document
      else if t = ''image'' then send_photo
      else if t = ''audio'' then send_audio
      else if t = ''video'' then send_video
      else send_document)"

definition send_media :: "env \<Rightarrow> world \<Rightarrow> user_id \<Rightarrow> resource \<Rightarrow> tracked \<Rightarrow> bool \<times> event list" where
  "send_media e w user r tracked_data =
     (let file_path = tmpdir w @ ''/'' @ basename (res_url r) in
      if ytdl_download w (res_url r) file_path then
        (if MAX_FILE_SIZE e < getsize w file_path then (False, [YtdlDownload (res_url r) file_path])
         else (media_ok w (send_methods (res_type r)) user file_path,
               [YtdlDownload (res_url r) file_path,
                MediaSend (send_methods (res_type r)) user file_path r
                  (media_ok w (send_methods (res_type r)) user file_path)]))
      else if direct_download w (res_url r) file_path then
        (if MAX_FILE_SIZE e < getsize w file_path
         then (False, [YtdlDownload (res_url r) file_path, DirectDownload (res_url r) file_path])
         else (media_ok w (send_methods (res_type r)) user file_path,
               [YtdlDownload (res_url r) file_path, DirectDownload (res_url r) file_path,
                MediaSend (send_methods (res_type r)) user file_path r
                  (media_ok w (send_methods (res_type r)) user file_path)]))
      else (False, [YtdlDownload (res_url r) file_path, DirectDownload (res_url r) file_path]))"

subsection \<open>\<^verbatim>\<open>safe_send_message\<close>\<close>

function safe_send_message :: "world \<Rightarrow> user_id \<Rightarrow> string \<Rightarrow> unit action" where
  "safe_send_message w user txt s =
     (if txt = [] then (Inr (), s)
      else if text_ok w user (take 4096 txt)
        then safe_send_message w user (drop 4096 txt) (emit [MessageSend user (take 4096 txt) True] s)
        else (Inl TransportError, emit [MessageSend user (take 4096 txt) False] s))"
  by pat_completeness auto
termination
  by (relation "measure (\<lambda>(w, user, txt, s). length txt)") auto

declare safe_send_message.simps [simp del]

subsection \<open>\<^verbatim>\<open>check_updates\<close>\<close>

definition create_archive :: "user_id \<Rightarrow> url \<Rightarrow> string \<Rightarrow> nat \<Rightarrow> sys \<Rightarrow> sys" where
  "create_archive user link txt t s =
     s\<lparr>archives := archives s @
        [\<lparr>a_user_id = user, a_url = link, a_content = txt, a_timestamp = t\<rparr>]\<rparr>"

definition generate_diff :: "env \<Rightarrow> string \<Rightarrow> string \<Rightarrow> string" where
  "generate_diff e old_content new_content =
     take (MAX_MESSAGE_LENGTH e) (unified_diff e old_content new_content)"

text \<open>
  Lines 80-94: the comparison of the fingerprints and the text of the notification. The
  result is \<open>(changes_detected, text_changes)\<close>. The pictographs that open the two texts
  are left out of the literals.
\<close>

definition detect_changes :: "env \<Rightarrow> tracked \<Rightarrow> url \<Rightarrow> string \<Rightarrow> bool \<times> string" where
  "detect_changes e tracked_data link current_content =
     (if sha256_hex e current_content \<noteq> content_hash tracked_data then
        (if content tracked_data \<noteq> []
         then (True, ''Content Updated: '' @ link @ [CHR 0x0A] @
                 generate_diff e (content tracked_data) current_content)
         else (True, ''Initial Content Saved: '' @ link))
      else (False, []))"

text \<open>
  Lines 103-109, one round of the loop over the filtered resources: a resource whose
  fingerprint is among the \<^verbatim>\<open>sent_hashes\<close> of the document read at the start of the cycle
  is passed over; otherwise \<open>send_media\<close> runs, and its fingerprint joins the cycle's list
  only when that returned true. Either outcome is counted.
\<close>

definition deliver_step ::
  "env \<Rightarrow> world \<Rightarrow> user_id \<Rightarrow> url \<Rightarrow> tracked \<Rightarrow> resource \<Rightarrow> string list \<Rightarrow> string list action" where
  "deliver_step e w user link tracked_data r acc s =
     (if res_hash r \<in> set (sent_hashes tracked_data) then (Inr acc, s)
      else (case send_media e w user r tracked_data of
              (ok, evs) \<Rightarrow>
                if ok
                then then_do (track_statistics ''downloads'' user link True)
                       (\<lambda>_ s'. (Inr (acc @ [res_hash r]), s')) (emit evs s)
                else then_do (track_statistics ''downloads'' user link False)
                       (\<lambda>_ s'. (Inr acc, s')) (emit evs s)))"

fun deliver_all ::
  "env \<Rightarrow> world \<Rightarrow> user_id \<Rightarrow> url \<Rightarrow> tracked \<Rightarrow> resource list \<Rightarrow> string list \<Rightarrow> string list action" where
  "deliver_all e w user link tracked_data [] acc s = (Inr acc, s)"
| "deliver_all e w user link tracked_data (r # rs) acc s =
     (case deliver_step e w user link tracked_data r acc s of
        (Inl err, s') \<Rightarrow> (Inl err, s')
      | (Inr acc', s') \<Rightarrow> deliver_all e w user link tracked_data rs acc' s')"

text \<open>
  Lines 115-123, the update of the tracked document. The source builds one document,
  \<^verbatim>\<open>update_data\<close>, with the keys \<^verbatim>\<open>content_hash\<close>, \<^verbatim>\<open>last_checked\<close> and \<^verbatim>\<open>$push\<close>, and
  passes it as the value of \<^verbatim>\<open>$set\<close>. \<^verbatim>\<open>$set\<close> takes every key of its document for the
  name of a field: it runs no operator that is nested in it, and it refuses a field name
  that begins with a dollar sign. The call then raises and nothing is written. A document
  without such a key sets the fields it names in the tracked document.
\<close>

datatype field_value = StrValue string | TimeValue nat | EachValue "string list"

definition update_data :: "string \<Rightarrow> nat \<Rightarrow> string list \<Rightarrow> (string \<times> field_value) list" where
  "update_data current_hash t sent =
     [(''content_hash'', StrValue current_hash), (''last_checked'', TimeValue t),
      (''$push'', EachValue sent)]"

fun set_field :: "tracked \<Rightarrow> string \<times> field_value \<Rightarrow> tracked" where
  "set_field d (k, StrValue x) =
     (if k = ''content_hash'' then d\<lparr>content_hash := x\<rparr>
      else if k = ''content'' then d\<lparr>content := x\<rparr>
      else d)"
| "set_field d (k, TimeValue t) = (if k = ''last_checked'' then d\<lparr>last_checked := t\<rparr> else d)"
| "set_field d (k, EachValue xs) = d"

definition update_one :: "user_id \<Rightarrow> url \<Rightarrow> (string \<times> field_value) list \<Rightarrow> unit action" where
  "update_one user link set_document s =
     (case find (\<lambda>(k, v). take 1 k = ''$'') set_document of
        Some (k, v) \<Rightarrow> (Inl (WriteError k), s)
      | None \<Rightarrow>
          (case urls s (user, link) of
             None \<Rightarrow> (Inr (), s)
           | Some d \<Rightarrow>
               (Inr (), s\<lparr>urls := (urls s)((user, link) \<mapsto> foldl set_field d set_document)\<rparr>)))"

definition in_active_hours :: "world \<Rightarrow> bool" where
  "in_active_hours w = (9 \<le> hour w \<and> hour w < 22)"

text \<open>The body of the \<^verbatim>\<open>try\<close> block (lines 64-125).\<close>

definition check_updates_try :: "env \<Rightarrow> world \<Rightarrow> user_id \<Rightarrow> url \<Rightarrow> unit action" where
  "check_updates_try e w user link s =
     (case urls s (user, link) of
        None \<Rightarrow> (Inr (), s)
      | Some tracked_data \<Rightarrow>
          if night_mode tracked_data \<and> \<not> in_active_hours w
          then track_statistics ''checks'' user link False s
          else
            (case get_webpage_content e w link of
               (current_content, new_resources) \<Rightarrow>
                 (case detect_changes e tracked_data link current_content of
                    (changes_detected, text_changes) \<Rightarrow>
                      then_do
                        (if changes_detected
                         then track_statistics ''content_changes'' user link True else no_op)
                        (\<lambda>_. then_do
                          (deliver_all e w user link tracked_data
                             (filter (\<lambda>r. apply_filters w r user) new_resources) [])
                          (\<lambda>sent. then_do
                            (if changes_detected \<or> sent \<noteq> []
                             then then_do
                               (if text_changes \<noteq> []
                                then safe_send_message w user text_changes else no_op)
                               (\<lambda>_. update_one user link
                                  (update_data (sha256_hex e current_content) (now w) sent))
                             else no_op)
                            (\<lambda>_. track_statistics ''checks'' user link True)))
                        (create_archive user link current_content (now w)
                           (emit [HttpGet link] s)))))"

text \<open>
  The whole function: an exception of the body is caught (lines 127-130), a failed check
  is counted and an error message is sent to the user. The text of the exception, which
  the message quotes, is left out of the literal.
\<close>

definition check_updates :: "env \<Rightarrow> world \<Rightarrow> user_id \<Rightarrow> url \<Rightarrow> unit action" where
  "check_updates e w user link s =
     (case check_updates_try e w user link s of
        (Inr u, s') \<Rightarrow> (Inr (), s')
      | (Inl err, s') \<Rightarrow>
          then_do (track_statistics ''checks'' user link False)
            (\<lambda>_ s''. if text_ok w user (''Error checking '' @ link)
               then (Inr (), emit [MessageSend user (''Error checking '' @ link) True] s'')
               else (Inl TransportError,
                     emit [MessageSend user (''Error checking '' @ link) False] s'')) s')"

section \<open>Observations and example inputs\<close>

text \<open>
  What the statistics hold for a user, a URL and a counter: the sum over the documents of
  that user and URL, an absent counter counting as zero.
\<close>

definition counter_total :: "stat_doc list \<Rightarrow> user_id \<Rightarrow> url \<Rightarrow> string \<times> bool \<Rightarrow> nat" where
  "counter_total docs user link k =
     sum_list (map (\<lambda>d. or_zero (st_counters d k))
       (filter (\<lambda>d. st_user_id d = user \<and> st_url d = link) docs))"

definition sys0 :: sys where
  "sys0 = \<lparr>urls = Map.empty, stats = [], archives = [], trace = []\<rparr>"

text \<open>
  Statistics as \<open>track_statistics\<close> leaves them: after one successful check of one URL,
  and after three successful checks of one URL and a successful and a failed check of
  another.
\<close>

definition one_success :: sys where
  "one_success = snd (track_statistics ''checks'' 7 ''http://a'' True sys0)"

definition mixed_stats :: sys where
  "mixed_stats =
     snd (track_statistics ''checks'' 7 ''http://b'' False
       (snd (track_statistics ''checks'' 7 ''http://b'' True
         (snd (track_statistics ''checks'' 7 ''http://a'' True
           (snd (track_statistics ''checks'' 7 ''http://a'' True
             (snd (track_statistics ''checks'' 7 ''http://a'' True sys0)))))))))"

text \<open>
  An environment for the examples. Its functions stand in for the library functions and
  agree with them on the inputs the examples use: joining an absolute link to a base URL
  gives the link, decoding a string without percent signs gives the string, the lower-cased
  extension of a path that ends in a dot and three letters is its last four characters,
  and the digests are those of MD5 and SHA-256 for the listed inputs. The size limits
  are sample values.
\<close>

definition example_md5 :: "string \<Rightarrow> string" where
  "example_md5 x =
     (if x = ''http://a/x.pdf'' then ''d7a86cf92e9e6af9dcaaec8b4525250c''
      else if x = ''http://a/y.pdf'' then ''76a321d38c6281e87253c42e80394781''
      else ''00000000000000000000000000000000'')"

definition example_sha256 :: "string \<Rightarrow> string" where
  "example_sha256 x =
     (if x = [] then ''e3b0c44298fc1c149afbf4c8996fb92427ae41e4649b934ca495991b7852b855''
      else if x = ''v1'' then ''3bfc269594ef649228e9a74bab00f042efc91d5acc6fbee31a382e80d42388fe''
      else if x = ''v2'' then ''fb04dcb6970e4c3d1873de51fd5a50d7bb46b3383113602665c350ec40b5f990''
      else ''0000000000000000000000000000000000000000000000000000000000000000'')"

definition example_diff :: "string \<Rightarrow> string \<Rightarrow> string" where
  "example_diff old_content new_content =
     ''--- Previous'' @ [CHR 0x0A] @ ''+++ Current'' @ [CHR 0x0A] @ ''@@ -1 +1 @@'' @ [CHR 0x0A] @
     ''-'' @ old_content @ [CHR 0x0A] @ ''+'' @ new_content"

definition env0 :: env where
  "env0 =
     \<lparr>urljoin = (\<lambda>base ref. ref),
      unquote = (\<lambda>x. x),
      splitext_lower = (\<lambda>x. drop (length x - 4) x),
      SUPPORTED_EXTENSIONS =
        [(''pdf'', [''.pdf'']), (''image'', [''.jpg'', ''.png'']),
         (''audio'', [''.mp3'']), (''video'', [''.mp4''])],
      md5_hex = example_md5,
      sha256_hex = example_sha256,
      unified_diff = example_diff,
      MAX_MESSAGE_LENGTH = 4096,
      MAX_FILE_SIZE = 52428800\<rparr>"

text \<open>
  A page with the text \<open>v1\<close> and one link to a PDF, and a world in which it is noon, the
  server returns that page, the filter accepts everything, the first downloader
  succeeds with a file of 1024 bytes and every send returns.
\<close>

definition pdf_link :: tag where
  "pdf_link = \<lparr>tag_name = ''a'', href = Some ''http://a/x.pdf'', src = None\<rparr>"

definition pdf_resource :: resource where
  "pdf_resource =
     \<lparr>res_url = ''http://a/x.pdf'', res_type = ''pdf'',
      res_hash = ''d7a86cf92e9e6af9dcaaec8b4525250c''\<rparr>"

definition page_v1 :: page where
  "page_v1 = \<lparr>body = ''v1'', tags = [pdf_link]\<rparr>"

definition world_noon :: world where
  "world_noon =
     \<lparr>hour = 12, now = 1000,
      http_get = (\<lambda>link. Some page_v1),
      apply_filters = (\<lambda>r user. True),
      ytdl_download = (\<lambda>link file_path. True),
      direct_download = (\<lambda>link file_path. True),
      getsize = (\<lambda>file_path. 1024),
      media_ok = (\<lambda>method user file_path. True),
      text_ok = (\<lambda>user txt. True),
      tmpdir = ''/tmp/d''\<rparr>"

definition fresh_target :: tracked where
  "fresh_target =
     \<lparr>night_mode = False, content_hash = [], content = [], sent_hashes = [], last_checked = 0\<rparr>"

definition tracking :: "tracked \<Rightarrow> sys" where
  "tracking d = sys0\<lparr>urls := [(7, ''http://a/'') \<mapsto> d]\<rparr>"

text \<open>The events of one cycle: what the cycle appended to the trace.\<close>

definition new_events :: "sys \<Rightarrow> sys \<Rightarrow> event list" where
  "new_events s s' = drop (length (trace s)) (trace s')"

text \<open>
  Variants of the example: a target with night mode at three and at eleven at night; a
  target whose stored fingerprint is that of \<open>v1\<close> and a world whose server does not
  answer; a later cycle in which the page's text is \<open>v2\<close>.
\<close>

definition world_night :: world where
  "world_night = world_noon\<lparr>hour := 3\<rparr>"

definition world_late_evening :: world where
  "world_late_evening = world_noon\<lparr>hour := 23\<rparr>"

definition sleeper :: tracked where
  "sleeper = fresh_target\<lparr>night_mode := True\<rparr>"

definition world_offline :: world where
  "world_offline = world_noon\<lparr>http_get := (\<lambda>link. None)\<rparr>"

definition seen_v1 :: tracked where
  "seen_v1 =
     fresh_target\<lparr>content_hash :=
       ''3bfc269594ef649228e9a74bab00f042efc91d5acc6fbee31a382e80d42388fe'',
       last_checked := 500\<rparr>"

definition page_v2 :: page where
  "page_v2 = \<lparr>body = ''v2'', tags = [pdf_link]\<rparr>"

definition world_later :: world where
  "world_later = world_noon\<lparr>now := 2000, http_get := (\<lambda>link. Some page_v2)\<rparr>"

lemmas cycle_defs = check_updates_def check_updates_try_def get_webpage_content_def
  tag_resource_def tag_url_def truthy_def classify_def detect_changes_def generate_diff_def
  deliver_step_def send_media_def send_methods_def update_one_def update_data_def
  in_active_hours_def
  create_archive_def then_do_def no_op_def emit_def track_statistics_def valid_events_def
  Let_def

lemmas example_defs = env0_def example_md5_def example_sha256_def example_diff_def
  pdf_link_def pdf_resource_def page_v1_def page_v2_def world_noon_def world_night_def
  world_late_evening_def world_offline_def world_later_def fresh_target_def sleeper_def
  seen_v1_def tracking_def sys0_def

text \<open>A page that links the same PDF twice.\<close>

definition page_twice :: page where
  "page_twice = \<lparr>body = ''v1'', tags = [pdf_link, pdf_link]\<rparr>"

definition world_twice :: world where
  "world_twice = world_noon\<lparr>http_get := (\<lambda>link. Some page_twice)\<rparr>"

text \<open>
  Files for the examples: a short file, a file of two full parts of 2000 MiB and 100
  bytes more, and a file of 2 GiB and one byte. The long files consist of one repeated
  byte.
\<close>

definition small_files :: fs where
  "small_files = [''/d/f'' \<mapsto> ''abcdefgh'']"

definition long_files :: fs where
  "long_files = [''/d/v.mp4'' \<mapsto> replicate (2 * (2000 * 1024 * 1024) + 100) (CHR ''x'')]"

definition video_files :: fs where
  "video_files = [''/d/v.mp4'' \<mapsto> replicate (2 * 1024 ^ 3 + 1) (CHR ''x'')]"

definition tx_up :: "path \<Rightarrow> bool" where
  "tx_up p = True"

definition tx_down :: "path \<Rightarrow> bool" where
  "tx_down p = False"

text \<open>The number that a string of decimal digits denotes.\<close>

definition digit_val :: "char \<Rightarrow> nat" where
  "digit_val c = length (takeWhile (\<lambda>d. d \<noteq> c) ''0123456789'')"

definition str_val :: "string \<Rightarrow> nat" where
  "str_val x = foldl (\<lambda>a c. 10 * a + digit_val c) 0 x"

text \<open>
  Observations of a cycle. \<open>handed\<close> lists the resources that were handed to a send
  method of the transport, \<open>delivered\<close> those whose send returned. \<open>is_new\<close> is the test
  of the loop against the document read at the start of the cycle, \<open>candidates\<close> the
  filtered resources of the page, and \<open>download_path\<close> the file a resource is downloaded to.
\<close>

fun handed_of :: "event \<Rightarrow> resource list" where
  "handed_of (MediaSend method user file_path r ok) = [r]"
| "handed_of ev = []"

fun delivered_of :: "event \<Rightarrow> resource list" where
  "delivered_of (MediaSend method user file_path r ok) = (if ok then [r] else [])"
| "delivered_of ev = []"

definition handed :: "event list \<Rightarrow> resource list" where
  "handed evs = concat (map handed_of evs)"

definition delivered :: "event list \<Rightarrow> resource list" where
  "delivered evs = concat (map delivered_of evs)"

definition is_new :: "tracked \<Rightarrow> resource \<Rightarrow> bool" where
  "is_new tracked_data r = (res_hash r \<notin> set (sent_hashes tracked_data))"

definition candidates :: "env \<Rightarrow> world \<Rightarrow> user_id \<Rightarrow> url \<Rightarrow> resource list" where
  "candidates e w user link =
     filter (\<lambda>r. apply_filters w r user) (snd (get_webpage_content e w link))"

definition download_path :: "world \<Rightarrow> resource \<Rightarrow> path" where
  "download_path w r = tmpdir w @ ''/'' @ basename (res_url r)"

definition suppressed :: "tracked \<Rightarrow> world \<Rightarrow> bool" where
  "suppressed tracked_data w = (night_mode tracked_data \<and> \<not> in_active_hours w)"

text \<open>
  What one round of the delivery loop adds to the trace and to the statistics.
\<close>

definition step_events :: "env \<Rightarrow> world \<Rightarrow> user_id \<Rightarrow> tracked \<Rightarrow> resource \<Rightarrow> event list" where
  "step_events e w user td r = (if is_new td r then snd (send_media e w user r td) else [])"

definition step_stats ::
  "env \<Rightarrow> world \<Rightarrow> user_id \<Rightarrow> url \<Rightarrow> tracked \<Rightarrow> stat_doc list \<Rightarrow> resource \<Rightarrow> stat_doc list" where
  "step_stats e w user link td st r =
     (if is_new td r
      then inc_counter user link (''downloads'', fst (send_media e w user r td)) st else st)"

text \<open>The events of a cycle up to the end of the delivery loop.\<close>

definition cycle_events :: "env \<Rightarrow> world \<Rightarrow> user_id \<Rightarrow> url \<Rightarrow> tracked \<Rightarrow> event list" where
  "cycle_events e w user link td =
     HttpGet link # concat (map (step_events e w user td) (candidates e w user link))"

text \<open>A world in which every downloaded file has 60 MB, more than the limit of the example.\<close>

definition world_big :: world where
  "world_big = world_noon\<lparr>getsize := (\<lambda>file_path. 60000000)\<rparr>"

section \<open>Statistics: recording\<close>

lemma counter_total_inc_same:
  "counter_total (inc_counter user link k docs) user link k = counter_total docs user link k + 1"
  by (induction docs) (auto simp: counter_total_def or_zero_def split: option.splits)

lemma counter_total_inc_other:
  "(user', link', k') \<noteq> (user, link, k) \<Longrightarrow>
   counter_total (inc_counter user link k docs) user' link' k' = counter_total docs user' link' k'"
  by (induction docs) (auto simp: counter_total_def or_zero_def split: option.splits)

text \<open>
  Claim C7. \<open>track_statistics\<close> with an event kind of the closed set
  \<open>{downloads, checks, content_changes}\<close> returns normally, raises the counter of that
  event kind and outcome for the user and URL by exactly one, and leaves every other
  counter and the rest of the state as they were. With any other event kind it raises
  \<open>ValueError\<close> and the state, the statistics included, is unchanged.
\<close>

theorem track_statistics_closed_set:
  "(event_type \<in> set valid_events \<longrightarrow>
      (\<exists>s'. track_statistics event_type user link success s = (Inr (), s') \<and>
         urls s' = urls s \<and> archives s' = archives s \<and> trace s' = trace s \<and>
         counter_total (stats s') user link (event_type, success) =
           counter_total (stats s) user link (event_type, success) + 1 \<and>
         (\<forall>user' link' k'. (user', link', k') \<noteq> (user, link, (event_type, success)) \<longrightarrow>
            counter_total (stats s') user' link' k' = counter_total (stats s) user' link' k'))) \<and>
   (event_type \<notin> set valid_events \<longrightarrow>
      track_statistics event_type user link success s =
        (Inl (ValueError (''Invalid event type: '' @ event_type)), s))"
  by (simp add: track_statistics_def counter_total_inc_same counter_total_inc_other)

theorem track_statistics_closed_set_witness:
  "fst (track_statistics ''checks'' 7 ''http://a'' False sys0) = Inr () \<and>
   counter_total (stats (snd (track_statistics ''checks'' 7 ''http://a'' False sys0)))
     7 ''http://a'' (''checks'', False) = 1 \<and>
   counter_total (stats (snd (track_statistics ''checks'' 7 ''http://a'' False sys0)))
     7 ''http://a'' (''checks'', True) = 0 \<and>
   track_statistics ''visits'' 7 ''http://a'' True sys0 =
     (Inl (ValueError ''Invalid event type: visits''), sys0)"
  using track_statistics_closed_set [of "''checks''" 7 "''http://a''" False sys0]
    track_statistics_closed_set [of "''visits''" 7 "''http://a''" True sys0]
  by (auto simp: valid_events_def sys0_def counter_total_def)

section \<open>Statistics: the summary\<close>

lemma sum_add_fields:
  "list_all (\<lambda>d. st_counters d k1 \<noteq> None \<and> st_counters d k2 \<noteq> None) docs \<Longrightarrow>
   sum_list (map (\<lambda>d. or_zero (add_fields d k1 k2)) docs) = field_sum k1 docs + field_sum k2 docs"
  by (induction docs) (auto simp: field_sum_def add_fields_def or_zero_def)

lemma get_statistics_ratio:
  assumes "list_all (\<lambda>d. st_counters d (''checks'', True) \<noteq> None \<and>
      st_counters d (''checks'', False) \<noteq> None) (filter (\<lambda>d. st_user_id d = user) (stats s))"
    and "get_statistics user s = Some r"
  shows "uptime_percentage r =
     (if field_sum (''checks'', True) (filter (\<lambda>d. st_user_id d = user) (stats s)) +
         field_sum (''checks'', False) (filter (\<lambda>d. st_user_id d = user) (stats s)) = 0 then 0
      else of_nat (field_sum (''checks'', True) (filter (\<lambda>d. st_user_id d = user) (stats s))) /
           of_nat (field_sum (''checks'', True) (filter (\<lambda>d. st_user_id d = user) (stats s)) +
             field_sum (''checks'', False) (filter (\<lambda>d. st_user_id d = user) (stats s))))"
proof (cases "filter (\<lambda>d. st_user_id d = user) (stats s)")
  case Nil
  with assms(2) show ?thesis by (simp add: get_statistics_def)
next
  case (Cons d ds)
  from assms(1) have tot:
    "sum_list (map (\<lambda>d. or_zero (add_fields d (''checks'', True) (''checks'', False))) (d # ds)) =
     field_sum (''checks'', True) (d # ds) + field_sum (''checks'', False) (d # ds)"
    unfolding Cons by (rule sum_add_fields)
  from assms(2) have "r = \<lparr>total_tracked = length (d # ds),
      success_downloads = field_sum (''downloads'', True) (d # ds),
      failed_downloads = field_sum (''downloads'', False) (d # ds),
      uptime_percentage =
        (if sum_list (map (\<lambda>d. or_zero (add_fields d (''checks'', True) (''checks'', False))) (d # ds)) = 0
         then 0
         else of_nat (field_sum (''checks'', True) (d # ds)) /
           of_nat (sum_list (map (\<lambda>d. or_zero (add_fields d (''checks'', True) (''checks'', False))) (d # ds))))\<rparr>"
    by (simp add: get_statistics_def Cons Let_def del: sum_list.Cons list.map)
  then have "uptime_percentage r =
        (if sum_list (map (\<lambda>d. or_zero (add_fields d (''checks'', True) (''checks'', False))) (d # ds)) = 0
         then 0
         else of_nat (field_sum (''checks'', True) (d # ds)) /
           of_nat (sum_list (map (\<lambda>d. or_zero (add_fields d (''checks'', True) (''checks'', False))) (d # ds))))"
    by simp
  then show ?thesis unfolding tot Cons .
qed

text \<open>
  Claim C4. The claim says that the uptime is the ratio of the successful checks to all
  checks, and 1 when every recorded check succeeded. \<open>get_statistics\<close> computes that ratio
  when every document of the user holds both check counters (\<open>get_statistics_ratio\<close>).
  A document that \<open>track_statistics\<close> wrote for successful checks only has no failure
  counter, the sum of the two is null for it and it adds nothing to the total: after one
  successful check and no failed one the uptime is 0, and with the second example it is 2.
\<close>

theorem get_statistics_missing_failure_counter:
  "map_option uptime_percentage (get_statistics 7 one_success) = Some 0 \<and>
   counter_total (stats one_success) 7 ''http://a'' (''checks'', True) = 1 \<and>
   counter_total (stats one_success) 7 ''http://a'' (''checks'', False) = 0 \<and>
   map_option uptime_percentage (get_statistics 7 mixed_stats) = Some 2"
  by (simp add: one_success_def mixed_stats_def get_statistics_def track_statistics_def valid_events_def sys0_def
      add_fields_def field_sum_def or_zero_def counter_total_def)

section \<open>The check cycle: night mode\<close>

text \<open>
  Claim C3, as stated, fails: a cycle that night mode suppresses is counted as a failed
  check. At three at night, with night mode set, the cycle fetches nothing and the
  failure counter of the checks is 1 afterwards.
\<close>

theorem night_mode_counterexample:
  "fst (check_updates env0 world_night 7 ''http://a/'' (tracking sleeper)) = Inr () \<and>
   counter_total (stats (snd (check_updates env0 world_night 7 ''http://a/'' (tracking sleeper))))
      7 ''http://a/'' (''checks'', False) = 1 \<and>
   trace (snd (check_updates env0 world_night 7 ''http://a/'' (tracking sleeper))) = []"
  by (simp add: cycle_defs example_defs counter_total_def or_zero_def)

text \<open>
  Claim C3, amended. For a target with night mode set and a local hour outside
  \<open>9 \<le> hour < 22\<close>, the check cycle returns normally, performs no fetch, no download and
  no send (the trace is unchanged), leaves the tracked targets and the archives as they
  were, and counts the cycle as one failed check: the failure counter of \<open>checks\<close> for the
  user and URL rises by one and no other counter changes.
\<close>

theorem check_updates_night_mode:
  assumes "urls s (user, link) = Some tracked_data"
    and "night_mode tracked_data"
    and "\<not> in_active_hours w"
  shows "\<exists>s'. check_updates e w user link s = (Inr (), s') \<and>
      trace s' = trace s \<and> urls s' = urls s \<and> archives s' = archives s \<and>
      counter_total (stats s') user link (''checks'', False) =
        counter_total (stats s) user link (''checks'', False) + 1 \<and>
      (\<forall>user' link' k'. (user', link', k') \<noteq> (user, link, (''checks'', False)) \<longrightarrow>
         counter_total (stats s') user' link' k' = counter_total (stats s) user' link' k')"
  using assms
  by (simp add: check_updates_def check_updates_try_def track_statistics_def valid_events_def
      counter_total_inc_same counter_total_inc_other)

theorem check_updates_night_mode_witness:
  "urls (tracking sleeper) (7, ''http://a/'') = Some sleeper \<and> night_mode sleeper \<and>
   \<not> in_active_hours world_late_evening \<and>
   fst (check_updates env0 world_late_evening 7 ''http://a/'' (tracking sleeper)) = Inr () \<and>
   trace (snd (check_updates env0 world_late_evening 7 ''http://a/'' (tracking sleeper))) = [] \<and>
   counter_total (stats (snd (check_updates env0 world_late_evening 7 ''http://a/''
     (tracking sleeper)))) 7 ''http://a/'' (''checks'', False) = 1"
proof -
  have h1: "urls (tracking sleeper) (7, ''http://a/'') = Some sleeper"
    by (simp add: tracking_def sys0_def)
  have h2: "night_mode sleeper" by (simp add: sleeper_def)
  have h3: "\<not> in_active_hours world_late_evening"
    by (simp add: in_active_hours_def world_late_evening_def world_noon_def)
  from check_updates_night_mode [OF h1 h2 h3, of env0] h1 h2 h3 show ?thesis
    by (auto simp: tracking_def sys0_def counter_total_def)
qed

section \<open>Resource extraction: duplicates\<close>

text \<open>
  \<open>extract_documents\<close> of b.py returns at most one document per URL, and the document it
  returns for a URL is the last one the page gave for it.
\<close>

lemma dict_put_keys:
  "map fst (dict_put d k v) = (if k \<in> set (map fst d) then map fst d else map fst d @ [k])"
  by (induction d) (auto simp: rev_image_eqI)

lemma dict_put_distinct: "distinct (map fst d) \<Longrightarrow> distinct (map fst (dict_put d k v))"
  by (simp add: dict_put_keys)

lemma dict_put_map_of: "map_of (dict_put d k v) = (map_of d)(k \<mapsto> v)"
  by (induction d) auto

lemma dict_fold_distinct:
  "distinct (map fst d) \<Longrightarrow>
   distinct (map fst (foldl (\<lambda>d doc. dict_put d (doc_url doc) doc) d docs))"
  by (induction docs arbitrary: d) (simp_all add: dict_put_distinct)

lemma dict_fold_keyed:
  "list_all (\<lambda>(k, v). doc_url v = k) d \<Longrightarrow>
   list_all (\<lambda>(k, v). doc_url v = k) (foldl (\<lambda>d doc. dict_put d (doc_url doc) doc) d docs)"
proof (induction docs arbitrary: d)
  case Nil
  then show ?case by simp
next
  case (Cons doc docs)
  have "list_all (\<lambda>(k, v). doc_url v = k) (dict_put d (doc_url doc) doc)"
    using Cons.prems by (induction d) auto
  then show ?case using Cons.IH by simp
qed

lemma dict_fold_map_of:
  "map_of (foldl (\<lambda>d doc. dict_put d (doc_url doc) doc) d docs) =
   map_of (rev (map (\<lambda>doc. (doc_url doc, doc)) docs) @ d)"
proof (induction docs arbitrary: d)
  case Nil
  then show ?case by simp
next
  case (Cons doc docs)
  show ?case
    by (simp add: Cons.IH) (simp add: dict_put_map_of map_add_def fun_eq_iff split: option.splits)
qed

lemma extract_documents_distinct:
  "distinct (map doc_url (extract_documents b links base_url))"
proof -
  define docs where "docs = concat (map (link_document b base_url) links)"
  define d where "d = foldl (\<lambda>d doc. dict_put d (doc_url doc) doc) [] docs"
  have k: "list_all (\<lambda>(k, v). doc_url v = k) d"
    unfolding d_def by (rule dict_fold_keyed) simp
  then have e: "map (doc_url \<circ> snd) d = map fst d"
    by (induction d) auto
  have "distinct (map fst d)"
    unfolding d_def by (rule dict_fold_distinct) simp
  then have "distinct (map (doc_url \<circ> snd) d)"
    unfolding e .
  then show ?thesis
    by (simp add: extract_documents_def docs_def [symmetric] d_def [symmetric])
qed

lemma extract_documents_last_wins:
  assumes "doc \<in> set (extract_documents b links base_url)"
  shows "map_of (rev (map (\<lambda>doc. (doc_url doc, doc)) (concat (map (link_document b base_url) links))))
     (doc_url doc) = Some doc"
proof -
  define docs where "docs = concat (map (link_document b base_url) links)"
  define d where "d = foldl (\<lambda>d doc. dict_put d (doc_url doc) doc) [] docs"
  from assms obtain k where kd: "(k, doc) \<in> set d"
    by (auto simp: extract_documents_def docs_def [symmetric] d_def [symmetric])
  have "list_all (\<lambda>(k, v). doc_url v = k) d"
    unfolding d_def by (rule dict_fold_keyed) simp
  with kd have k: "k = doc_url doc"
    by (auto simp: list_all_iff)
  have "distinct (map fst d)"
    unfolding d_def by (rule dict_fold_distinct) simp
  with kd have "map_of d k = Some doc"
    by simp
  then show ?thesis
    unfolding k d_def dict_fold_map_of docs_def by simp
qed

text \<open>
  Claim C9. The claim says that the candidates of a fetched page hold at most one entry
  per absolute URL. \<open>get_webpage_content\<close>, which feeds the check cycle, does not remove
  duplicates: a page that links the same PDF twice yields the same candidate twice.
\<close>

theorem get_webpage_content_keeps_duplicates:
  "snd (get_webpage_content env0 world_twice ''http://a/'') = [pdf_resource, pdf_resource]"
  by (simp add: cycle_defs example_defs page_twice_def world_twice_def)

section \<open>Splitting files\<close>

lemma part_name_0: "part_name f 0 = f @ ''.part000''"
  by (simp add: part_name_def fmt03_def str_nat.simps digit_char_def eval_nat_numeral)

lemma part_name_1: "part_name f (Suc 0) = f @ ''.part001''"
  by (simp add: part_name_def fmt03_def str_nat.simps digit_char_def eval_nat_numeral)

lemma part_name_2: "part_name f (Suc (Suc 0)) = f @ ''.part002''"
  by (simp add: part_name_def fmt03_def str_nat.simps digit_char_def eval_nat_numeral)

lemmas split_defs = split_file_def split_loop.simps read_part.simps bwrite_def new_writer_def
  closed_content_def Let_def part_name_0 part_name_1 part_name_2

text \<open>
  Claim C10. The claim says that the parts, concatenated, are the original file. The size
  test of \<open>split_file\<close> runs before the part is closed, and a part that is still wholly in
  the writer's buffer has size zero on the file system: it is removed and the loop ends.
  With a buffer of 8192 bytes, a file of 8 bytes split at 3 gives no part at all; a file of
  two full parts of 2000 MiB and 100 bytes more gives the two full parts only, and the last
  100 bytes are in no part.
\<close>

theorem split_file_drops_buffered_part:
  "split_file 8192 small_files ''/d/f'' 3 = Inr ([], small_files(''/d/f.part000'' := None)) \<and>
   fst (projr (split_file 8192 long_files ''/d/v.mp4'' (2000 * 1024 * 1024))) =
     [''/d/v.mp4.part000'', ''/d/v.mp4.part001''] \<and>
   map (map_option length \<circ> snd (projr (split_file 8192 long_files ''/d/v.mp4'' (2000 * 1024 * 1024))))
     [''/d/v.mp4.part000'', ''/d/v.mp4.part001'', ''/d/v.mp4.part002'', ''/d/v.mp4''] =
     [Some 2097152000, Some 2097152000, None, Some 4194304100]"
  by (simp add: split_defs small_files_def long_files_def)

text \<open>Part names determine the part number, and no part has the name of the file.\<close>

lemma digit_val_digit_char:
  assumes "d < 10"
  shows "digit_val (digit_char d) = d"
proof -
  from assms have "d = 0 \<or> d = 1 \<or> d = 2 \<or> d = 3 \<or> d = 4 \<or> d = 5 \<or> d = 6 \<or> d = 7 \<or>
      d = 8 \<or> d = 9"
    by arith
  then show ?thesis
    by (elim disjE) (simp_all add: digit_val_def digit_char_def)
qed

lemma str_val_append: "str_val (x @ [c]) = 10 * str_val x + digit_val c"
  by (simp add: str_val_def)

lemma str_val_str_nat: "str_val (str_nat n) = n"
proof (induction n rule: str_nat.induct)
  case (1 n)
  show ?case
  proof (cases "n < 10")
    case True
    then show ?thesis
      by (simp add: str_nat.simps [of n] str_val_def digit_val_digit_char)
  next
    case False
    with 1 show ?thesis
      by (simp add: str_nat.simps [of n] str_val_append digit_val_digit_char)
  qed
qed

lemma str_val_zeros: "foldl (\<lambda>a c. 10 * a + digit_val c) 0 (replicate k (CHR ''0'')) = 0"
  by (induction k) (simp_all add: digit_val_def)

lemma str_val_fmt03: "str_val (fmt03 n) = n"
  using str_val_str_nat [of n] by (simp add: fmt03_def str_val_def str_val_zeros)

lemma part_name_inject:
  assumes "part_name f i = part_name f j"
  shows "i = j"
proof -
  from assms have "fmt03 i = fmt03 j"
    by (simp add: part_name_def)
  then have "str_val (fmt03 i) = str_val (fmt03 j)"
    by simp
  then show ?thesis
    by (simp add: str_val_fmt03)
qed

lemma part_name_not_file: "part_name f i \<noteq> f"
  by (simp add: part_name_def)

section \<open>The download handler: large files\<close>

lemma read_part_counts:
  "read_part bufsize inp remaining w = (inp', remaining', w') \<Longrightarrow> 0 \<le> remaining \<Longrightarrow>
   0 \<le> remaining' \<and>
   int (length (closed_content w')) = int (length (closed_content w)) + (remaining - remaining')"
proof (induction bufsize inp remaining w rule: read_part.induct)
  case (1 bufsize inp remaining w)
  show ?case
  proof (cases "0 < remaining \<and> take (nat (min remaining (100 * 1024 * 1024))) inp \<noteq> []")
    case False
    with "1.prems" show ?thesis
      by (auto simp: read_part.simps [of bufsize inp remaining w] Let_def split: if_splits)
  next
    case True
    define data where "data = take (nat (min remaining (100 * 1024 * 1024))) inp"
    from True have d: "data \<noteq> []" and r: "0 < remaining" by (simp_all add: data_def)
    have l: "int (length data) \<le> remaining" using r by (simp add: data_def)
    from "1.prems" True
    have rec: "read_part bufsize (drop (length data) inp) (remaining - int (length data))
                 (bwrite bufsize w data) = (inp', remaining', w')"
      by (simp add: read_part.simps [of bufsize inp remaining w] Let_def data_def)
    from l have nn: "0 \<le> remaining - int (length data)" by simp
    have ih: "0 \<le> remaining' \<and> int (length (closed_content w')) =
        int (length (closed_content (bwrite bufsize w data))) +
          (remaining - int (length data) - remaining')"
      using "1.IH" [OF r data_def d rec nn] .
    have w: "length (closed_content (bwrite bufsize w data)) =
        length (closed_content w) + length data"
      by (simp add: closed_content_def bwrite_def)
    from ih w show ?thesis by simp
  qed
qed

lemma split_loop_result:
  "split_loop bufsize f chunk inp n acc files = (paths, files') \<Longrightarrow>
   \<exists>k. paths = acc @ map (part_name f) [n..<n + k] \<and>
       (\<forall>j<k. files' (part_name f (n + j)) \<noteq> None) \<and>
       (\<forall>j. Suc j < k \<longrightarrow> map_option length (files' (part_name f (n + j))) = Some (nat chunk)) \<and>
       (\<forall>q. q \<notin> part_name f ` {n..n + k} \<longrightarrow> files' q = files q)"
proof (induction bufsize f chunk inp n acc files arbitrary: paths files' rule: split_loop.induct)
  case (1 bufsize f chunk inp n acc files)
  obtain inp' remaining w where rp: "read_part bufsize inp chunk new_writer = (inp', remaining, w)"
    by (metis prod_cases3)
  show ?case
  proof (cases "length (disk w) = 0")
    case True
    with "1.prems" rp have "paths = acc" "files' = files(part_name f n := None)"
      by (simp_all add: split_loop.simps [of bufsize f chunk inp n acc files] Let_def)
    then show ?thesis
      by (intro exI [of _ 0]) auto
  next
    case False
    note nonempty = this
    show ?thesis
    proof (cases "0 < remaining")
      case True
      with "1.prems" rp nonempty
      have "paths = acc @ [part_name f n]" "files' = files(part_name f n \<mapsto> closed_content w)"
        by (simp_all add: split_loop.simps [of bufsize f chunk inp n acc files] Let_def)
      then show ?thesis
        by (intro exI [of _ 1]) auto
    next
      case False
      with "1.prems" rp nonempty
      have rec: "split_loop bufsize f chunk inp' (n + 1) (acc @ [part_name f n])
          (files(part_name f n \<mapsto> closed_content w)) = (paths, files')"
        by (simp add: split_loop.simps [of bufsize f chunk inp n acc files] Let_def)
      from nonempty False
      have "\<exists>k. paths = (acc @ [part_name f n]) @ map (part_name f) [n + 1..<n + 1 + k] \<and>
         (\<forall>j<k. files' (part_name f (n + 1 + j)) \<noteq> None) \<and>
         (\<forall>j. Suc j < k \<longrightarrow> map_option length (files' (part_name f (n + 1 + j))) = Some (nat chunk)) \<and>
         (\<forall>q. q \<notin> part_name f ` {n + 1..n + 1 + k} \<longrightarrow>
            files' q = (files(part_name f n \<mapsto> closed_content w)) q)"
        by (intro "1.IH" [OF refl rp [symmetric] refl _ _ rec]) simp_all
      then obtain k where
        p: "paths = (acc @ [part_name f n]) @ map (part_name f) [n + 1..<n + 1 + k]" and
        e: "\<forall>j<k. files' (part_name f (n + 1 + j)) \<noteq> None" and
        z: "\<forall>j. Suc j < k \<longrightarrow> map_option length (files' (part_name f (n + 1 + j))) = Some (nat chunk)" and
        o: "\<forall>q. q \<notin> part_name f ` {n + 1..n + 1 + k} \<longrightarrow>
            files' q = (files(part_name f n \<mapsto> closed_content w)) q"
        by blast
      have notin: "part_name f n \<notin> part_name f ` {n + 1..n + 1 + k}"
        by (auto dest: part_name_inject)
      with o have here: "files' (part_name f n) = Some (closed_content w)"
        by simp
      have chunk_pos: "0 \<le> chunk"
      proof (rule ccontr)
        assume "\<not> 0 \<le> chunk"
        with rp have "w = new_writer"
          by (simp add: read_part.simps [of bufsize inp chunk new_writer])
        with nonempty show False by (simp add: new_writer_def)
      qed
      from read_part_counts [OF rp chunk_pos] False
      have "remaining = 0 \<and> int (length (closed_content w)) = chunk - remaining"
        by (simp add: closed_content_def new_writer_def)
      then have len: "length (closed_content w) = nat chunk"
        by linarith
      have p': "paths = acc @ map (part_name f) [n..<n + Suc k]"
        using p by (simp add: upt_rec [of n])
      have e': "\<forall>j<Suc k. files' (part_name f (n + j)) \<noteq> None"
      proof (intro allI impI)
        fix j assume "j < Suc k"
        show "files' (part_name f (n + j)) \<noteq> None"
        proof (cases j)
          case 0
          with here show ?thesis by simp
        next
          case (Suc i)
          with \<open>j < Suc k\<close> e show ?thesis by simp
        qed
      qed
      have z': "\<forall>j. Suc j < Suc k \<longrightarrow>
          map_option length (files' (part_name f (n + j))) = Some (nat chunk)"
      proof (intro allI impI)
        fix j assume "Suc j < Suc k"
        show "map_option length (files' (part_name f (n + j))) = Some (nat chunk)"
        proof (cases j)
          case 0
          with here len show ?thesis by simp
        next
          case (Suc i)
          with \<open>Suc j < Suc k\<close> z show ?thesis by simp
        qed
      qed
      have o': "\<forall>q. q \<notin> part_name f ` {n..n + Suc k} \<longrightarrow> files' q = files q"
      proof (intro allI impI)
        fix q assume q: "q \<notin> part_name f ` {n..n + Suc k}"
        then have "q \<notin> part_name f ` {n + 1..n + 1 + k}" and "q \<noteq> part_name f n"
          by auto
        with o show "files' q = files q" by simp
      qed
      from p' e' z' o' show ?thesis by blast
    qed
  qed
qed

lemma send_parts_run:
  "distinct ps \<Longrightarrow> list_all (\<lambda>p. files p \<noteq> None) ps \<Longrightarrow>
   send_parts tx ps files tr =
     (list_all tx ps,
      (\<lambda>q. if q \<in> set (takeWhile tx ps) then None else files q),
      tr @ concat (map (\<lambda>p. [SendDocument p True, Remove p]) (takeWhile tx ps)) @
        (if list_all tx ps then [] else [SendDocument (hd (dropWhile tx ps)) False]))"
proof (induction ps arbitrary: files tr)
  case Nil
  then show ?case by simp
next
  case (Cons p ps)
  show ?case
  proof (cases "tx p")
    case False
    with Cons.prems show ?thesis by simp
  next
    case True
    from Cons.prems have d: "distinct ps" and
      ex: "list_all (\<lambda>q. (files(p := None)) q \<noteq> None) ps"
      by (auto simp: list_all_iff)
    have f: "(\<lambda>q. if q \<in> set (takeWhile tx ps) then None else (files(p := None)) q) =
        (\<lambda>q. if q \<in> set (takeWhile tx (p # ps)) then None else files q)"
      using True by (auto simp: fun_eq_iff)
    from Cons.prems True show ?thesis
      by (simp add: Cons.IH [OF d ex] f [simplified])
  qed
qed

lemmas handler_defs = ytdl_handler_def split_defs video_files_def tx_up_def tx_down_def

text \<open>
  Claim C8, as stated, fails: a part whose send fails is not removed. With a file of 2 GiB
  and one byte and a transport that fails, the handler hands the first part to the
  transport and stops; both parts and the original file are still there afterwards.
\<close>

theorem ytdl_handler_failed_send_counterexample:
  "snd (ytdl_handler 8192 tx_down ''/d/v.mp4'' video_files) =
     [SendDocument ''/d/v.mp4.part000'' False, ReplyError] \<and>
   map (map_option length \<circ> fst (ytdl_handler 8192 tx_down ''/d/v.mp4'' video_files))
     [''/d/v.mp4.part000'', ''/d/v.mp4.part001'', ''/d/v.mp4''] =
     [Some 2097152000, Some 50331649, Some 2147483649]"
  by (simp add: handler_defs)

text \<open>
  Claim C8, amended. For a downloaded file of more than 2 GiB the handler splits the
  file with \<open>split_file\<close>: the parts are named \<open>file.part000\<close>, \<open>file.part001\<close>, ... in
  sequence, and every part but the last has 2000 MiB. The parts are sent in that order,
  and each part is removed right after its send has returned. When every send returns,
  the original file is removed after the last part. When a send fails, the handler stops
  there: that part, the parts after it and the original file stay, and nothing more is
  sent.
\<close>

theorem ytdl_handler_large_file:
  assumes "files file_path = Some file_bytes"
    and "2 * 1024 ^ 3 < length file_bytes"
  shows "\<exists>parts files1.
     split_file bufsize files file_path (2000 * 1024 * 1024) = Inr (parts, files1) \<and>
     parts = map (part_name file_path) [0..<length parts] \<and>
     list_all (\<lambda>p. map_option length (files1 p) = Some (2000 * 1024 * 1024)) (butlast parts) \<and>
     (case ytdl_handler bufsize tx file_path files of
        (files', tr) \<Rightarrow>
          tr = concat (map (\<lambda>p. [SendDocument p True, Remove p]) (takeWhile tx parts)) @
            (if list_all tx parts then [Remove file_path]
             else [SendDocument (hd (dropWhile tx parts)) False, ReplyError]) \<and>
          list_all (\<lambda>p. files' p = None) (takeWhile tx parts) \<and>
          list_all (\<lambda>p. files' p \<noteq> None) (dropWhile tx parts) \<and>
          (files' file_path = None) = list_all tx parts)"
proof -
  obtain parts files1 where
    sl: "split_loop bufsize file_path (2000 * 1024 * 1024) file_bytes 0 [] files = (parts, files1)"
    by (metis surj_pair)
  from split_loop_result [OF sl] obtain k where
    p: "parts = map (part_name file_path) [0..<k]" and
    e: "\<forall>j<k. files1 (part_name file_path j) \<noteq> None" and
    z: "\<forall>j. Suc j < k \<longrightarrow>
      map_option length (files1 (part_name file_path j)) = Some (nat (2000 * 1024 * 1024))" and
    o: "\<forall>q. q \<notin> part_name file_path ` {0..k} \<longrightarrow> files1 q = files q"
    by auto
  from p have k: "k = length parts" by simp
  have sf: "split_file bufsize files file_path (2000 * 1024 * 1024) = Inr (parts, files1)"
    using assms(1) sl by (simp add: split_file_def)
  have dist: "distinct parts"
    unfolding p by (auto simp: distinct_map inj_on_def dest: part_name_inject)
  have ex: "list_all (\<lambda>p. files1 p \<noteq> None) parts"
    using e unfolding p by (auto simp: list_all_iff)
  have neq: "file_path \<noteq> part_name file_path j" for j
    using part_name_not_file [of file_path j] by (rule not_sym)
  have notpart: "file_path \<notin> set parts"
    unfolding p using neq by auto
  have "file_path \<notin> part_name file_path ` {0..k}"
    using neq by auto
  with o assms(1) have orig: "files1 file_path = Some file_bytes" by simp
  have sizes: "list_all (\<lambda>p. map_option length (files1 p) = Some (2000 * 1024 * 1024)) (butlast parts)"
  proof -
    have "butlast parts = map (part_name file_path) [0..<k - 1]"
      unfolding p by (simp add: butlast_conv_take take_map)
    with z show ?thesis
      by (auto simp: list_all_iff)
  qed
  have run: "ytdl_handler bufsize tx file_path files =
     (if list_all tx parts
      then ((\<lambda>q. if q \<in> set (takeWhile tx parts) then None else files1 q)(file_path := None),
            concat (map (\<lambda>p. [SendDocument p True, Remove p]) (takeWhile tx parts)) @
              [Remove file_path])
      else ((\<lambda>q. if q \<in> set (takeWhile tx parts) then None else files1 q),
            concat (map (\<lambda>p. [SendDocument p True, Remove p]) (takeWhile tx parts)) @
              [SendDocument (hd (dropWhile tx parts)) False, ReplyError]))"
    using assms sf by (simp add: ytdl_handler_def send_parts_run [OF dist ex])
  have gone: "list_all tx parts \<Longrightarrow> dropWhile tx parts = []"
    by (simp add: list_all_iff)
  have stay: "list_all (\<lambda>p. p \<notin> set (takeWhile tx parts) \<and> files1 p \<noteq> None) (dropWhile tx parts)"
  proof -
    have "set (takeWhile tx parts) \<inter> set (dropWhile tx parts) = {}"
      using dist by (metis distinct_append takeWhile_dropWhile_id)
    moreover have "set (dropWhile tx parts) \<subseteq> set parts"
      by (simp add: set_dropWhileD subsetI)
    ultimately show ?thesis
      using ex by (auto simp: list_all_iff)
  qed
  have np: "file_path \<notin> set (takeWhile tx parts)"
    using notpart by (auto dest: set_takeWhileD)
  show ?thesis
  proof (intro exI conjI)
    show "split_file bufsize files file_path (2000 * 1024 * 1024) = Inr (parts, files1)" by (rule sf)
    show "parts = map (part_name file_path) [0..<length parts]" using p k by simp
    show "list_all (\<lambda>p. map_option length (files1 p) = Some (2000 * 1024 * 1024)) (butlast parts)"
      by (rule sizes)
    show "case ytdl_handler bufsize tx file_path files of
        (files', tr) \<Rightarrow>
          tr = concat (map (\<lambda>p. [SendDocument p True, Remove p]) (takeWhile tx parts)) @
            (if list_all tx parts then [Remove file_path]
             else [SendDocument (hd (dropWhile tx parts)) False, ReplyError]) \<and>
          list_all (\<lambda>p. files' p = None) (takeWhile tx parts) \<and>
          list_all (\<lambda>p. files' p \<noteq> None) (dropWhile tx parts) \<and>
          (files' file_path = None) = list_all tx parts"
    proof (cases "list_all tx parts")
      case True
      then have dw: "dropWhile tx parts = []" by (rule gone)
      from True run np show ?thesis
        by (simp add: dw) (simp add: list_all_iff)
    next
      case False
      with run stay np orig show ?thesis
        by (auto simp: list_all_iff)
    qed
  qed
qed

theorem ytdl_handler_large_file_witness:
  "video_files ''/d/v.mp4'' = Some (replicate (2 * 1024 ^ 3 + 1) (CHR ''x'')) \<and>
   2 * 1024 ^ 3 < length (replicate (2 * 1024 ^ 3 + 1) (CHR ''x'')) \<and>
   snd (ytdl_handler 8192 tx_up ''/d/v.mp4'' video_files) =
     [SendDocument ''/d/v.mp4.part000'' True, Remove ''/d/v.mp4.part000'',
      SendDocument ''/d/v.mp4.part001'' True, Remove ''/d/v.mp4.part001'',
      Remove ''/d/v.mp4''] \<and>
   map (fst (ytdl_handler 8192 tx_up ''/d/v.mp4'' video_files))
     [''/d/v.mp4.part000'', ''/d/v.mp4.part001'', ''/d/v.mp4''] = [None, None, None]"
proof -
  have h1: "video_files ''/d/v.mp4'' = Some (replicate (2 * 1024 ^ 3 + 1) (CHR ''x''))"
    by (simp add: video_files_def)
  have h2: "2 * 1024 ^ 3 < length (replicate (2 * 1024 ^ 3 + 1) (CHR ''x''))"
    by simp
  have parts: "split_file 8192 video_files ''/d/v.mp4'' (2000 * 1024 * 1024) =
      Inr ([''/d/v.mp4.part000'', ''/d/v.mp4.part001''],
        snd (projr (split_file 8192 video_files ''/d/v.mp4'' (2000 * 1024 * 1024))))"
    by (simp add: split_defs video_files_def)
  from ytdl_handler_large_file [where files = video_files and file_path = "''/d/v.mp4''"
      and bufsize = 8192 and tx = tx_up, OF h1 h2]
  obtain ps files1 where
    sf: "split_file 8192 video_files ''/d/v.mp4'' (2000 * 1024 * 1024) = Inr (ps, files1)" and
    run: "case ytdl_handler 8192 tx_up ''/d/v.mp4'' video_files of
        (files', tr) \<Rightarrow>
          tr = concat (map (\<lambda>p. [SendDocument p True, Remove p]) (takeWhile tx_up ps)) @
            (if list_all tx_up ps then [Remove ''/d/v.mp4'']
             else [SendDocument (hd (dropWhile tx_up ps)) False, ReplyError]) \<and>
          list_all (\<lambda>p. files' p = None) (takeWhile tx_up ps) \<and>
          list_all (\<lambda>p. files' p \<noteq> None) (dropWhile tx_up ps) \<and>
          (files' ''/d/v.mp4'' = None) = list_all tx_up ps"
    by (elim exE conjE) (rule that, assumption+)
  from sf parts have ps: "ps = [''/d/v.mp4.part000'', ''/d/v.mp4.part001'']"
    by simp
  have up: "takeWhile tx_up ps = ps" "list_all tx_up ps"
    by (simp_all add: ps tx_up_def)
  from run h1 h2 show ?thesis
    unfolding up by (simp add: ps tx_up_def split: prod.splits)
qed

section \<open>The check cycle: delivery\<close>

lemma handed_append [simp]: "handed (xs @ ys) = handed xs @ handed ys"
  by (simp add: handed_def)

lemma delivered_append [simp]: "delivered (xs @ ys) = delivered xs @ delivered ys"
  by (simp add: delivered_def)

lemma track_statistics_ok:
  "event_type \<in> set valid_events \<Longrightarrow>
   track_statistics event_type user link success s =
     (Inr (), s\<lparr>stats := inc_counter user link (event_type, success) (stats s)\<rparr>)"
  by (simp add: track_statistics_def)

lemma deliver_step_run:
  "deliver_step e w user link td r acc s =
     (Inr (if is_new td r \<and> fst (send_media e w user r td) then acc @ [res_hash r] else acc),
      s\<lparr>trace := trace s @ step_events e w user td r,
        stats := step_stats e w user link td (stats s) r\<rparr>)"
  by (simp add: deliver_step_def is_new_def step_events_def step_stats_def then_do_def emit_def
      track_statistics_def valid_events_def split: prod.splits)

lemma deliver_all_run:
  "deliver_all e w user link td rs acc s =
     (Inr (acc @ map res_hash (filter (\<lambda>r. is_new td r \<and> fst (send_media e w user r td)) rs)),
      s\<lparr>trace := trace s @ concat (map (step_events e w user td) rs),
        stats := foldl (step_stats e w user link td) (stats s) rs\<rparr>)"
  by (induction rs arbitrary: acc s) (simp_all add: deliver_step_run)

lemma send_media_handed:
  "handed (snd (send_media e w user r td)) =
     (if (ytdl_download w (res_url r) (download_path w r) \<or>
          direct_download w (res_url r) (download_path w r)) \<and>
         \<not> MAX_FILE_SIZE e < getsize w (download_path w r) then [r] else [])"
  by (simp add: send_media_def download_path_def handed_def Let_def)

lemma send_media_delivered:
  "delivered (snd (send_media e w user r td)) = (if fst (send_media e w user r td) then [r] else [])"
  by (simp add: send_media_def delivered_def Let_def)

lemma handed_Nil [simp]: "handed [] = []"
  by (simp add: handed_def)

lemma delivered_Nil [simp]: "delivered [] = []"
  by (simp add: delivered_def)

lemma step_events_handed:
  "handed (concat (map (step_events e w user td) rs)) =
     filter (\<lambda>r. is_new td r \<and>
       (ytdl_download w (res_url r) (download_path w r) \<or>
        direct_download w (res_url r) (download_path w r)) \<and>
       \<not> MAX_FILE_SIZE e < getsize w (download_path w r)) rs"
  by (induction rs) (simp_all add: step_events_def send_media_handed)

lemma step_events_delivered:
  "delivered (concat (map (step_events e w user td) rs)) =
     filter (\<lambda>r. is_new td r \<and> fst (send_media e w user r td)) rs"
  by (induction rs) (simp_all add: step_events_def send_media_delivered)

lemma step_stats_count:
  "counter_total (foldl (step_stats e w user link td) st rs) user link (''downloads'', b) =
   counter_total st user link (''downloads'', b) +
     length (filter (\<lambda>r. is_new td r \<and> fst (send_media e w user r td) = b) rs)"
  by (induction rs arbitrary: st)
    (auto simp: step_stats_def counter_total_inc_same counter_total_inc_other)

lemma safe_send_message_Nil: "safe_send_message w user [] s = (Inr (), s)"
  by (subst safe_send_message.simps) simp

lemma safe_send_message_more:
  "msg \<noteq> [] \<Longrightarrow>
   safe_send_message w user msg s =
     (if text_ok w user (take 4096 msg)
      then safe_send_message w user (drop 4096 msg) (emit [MessageSend user (take 4096 msg) True] s)
      else (Inl TransportError, emit [MessageSend user (take 4096 msg) False] s))"
  by (subst safe_send_message.simps) simp

lemma safe_send_message_shape:
  "safe_send_message w user msg s = (res, s') \<Longrightarrow>
   \<exists>evs. s' = emit evs s \<and> handed evs = [] \<and> delivered evs = []"
proof (induction w user msg s rule: safe_send_message.induct)
  case (1 w user msg s)
  show ?case
  proof (cases "msg = []")
    case True
    with "1.prems" have "s' = emit [] s"
      by (simp add: safe_send_message_Nil emit_def)
    then show ?thesis by (intro exI [of _ "[]"]) simp
  next
    case False
    show ?thesis
    proof (cases "text_ok w user (take 4096 msg)")
      case True
      with False "1.prems"
      have "safe_send_message w user (drop 4096 msg)
          (emit [MessageSend user (take 4096 msg) True] s) = (res, s')"
        by (simp add: safe_send_message_more)
      from "1.IH" [OF False True this] obtain evs where
        "s' = emit evs (emit [MessageSend user (take 4096 msg) True] s)"
        "handed evs = []" "delivered evs = []" by blast
      then show ?thesis
        by (intro exI [of _ "MessageSend user (take 4096 msg) True # evs"])
          (simp add: emit_def handed_def delivered_def)
    next
      case no: False
      with False "1.prems" have "s' = emit [MessageSend user (take 4096 msg) False] s"
        by (simp add: safe_send_message_more)
      then show ?thesis
        by (intro exI [of _ "[MessageSend user (take 4096 msg) False]"])
          (simp add: handed_def delivered_def)
    qed
  qed
qed

lemma safe_send_message_ok:
  "(\<And>msg. text_ok w user msg) \<Longrightarrow> fst (safe_send_message w user msg s) = Inr ()"
proof (induction w user msg s rule: safe_send_message.induct)
  case (1 w user msg s)
  then show ?case
    by (cases "msg = []") (simp_all add: safe_send_message_Nil safe_send_message_more)
qed

section \<open>The check cycle: what a cycle does\<close>

text \<open>
  The update that the cycle issues is refused, whatever the fingerprints it carries.
\<close>

lemma update_one_rejected:
  "update_one user link (update_data h t sent) s = (Inl (WriteError ''$push''), s)"
  by (simp add: update_one_def update_data_def)

text \<open>
  A cycle that is not suppressed fetches the page, runs the delivery loop over the
  candidates and may send messages. It leaves the tracked documents as they were. The
  download counters rise by the number of new candidates with the respective outcome.
  The body of the cycle returns normally exactly when the fingerprint of the page is the
  stored one and nothing was delivered: in every other case it reaches the update, or
  fails before it.
\<close>

lemma check_updates_try_shape:
  assumes t: "urls s (user, link) = Some td" and ns: "\<not> suppressed td w"
    and run: "check_updates_try e w user link s = (res, s')"
  shows "\<exists>msgs. trace s' = trace s @ cycle_events e w user link td @ msgs \<and>
      handed msgs = [] \<and> delivered msgs = [] \<and>
      urls s' = urls s \<and>
      (\<forall>b. counter_total (stats s') user link (''downloads'', b) =
         counter_total (stats s) user link (''downloads'', b) +
         length (filter (\<lambda>r. is_new td r \<and> fst (send_media e w user r td) = b)
           (candidates e w user link))) \<and>
      (res = Inr ()) =
        (sha256_hex e (fst (get_webpage_content e w link)) = content_hash td \<and>
         filter (\<lambda>r. is_new td r \<and> fst (send_media e w user r td))
           (candidates e w user link) = [])"
proof -
  obtain c rs0 where g: "get_webpage_content e w link = (c, rs0)" by (metis surj_pair)
  obtain chg notice where d: "detect_changes e td link c = (chg, notice)" by (metis surj_pair)
  define rs where "rs = filter (\<lambda>r. apply_filters w r user) rs0"
  have cand: "candidates e w user link = rs" by (simp add: candidates_def g rs_def)
  define sent where
    "sent = map res_hash (filter (\<lambda>r. is_new td r \<and> fst (send_media e w user r td)) rs)"
  define s0 where "s0 = create_archive user link c (now w) (emit [HttpGet link] s)"
  define sa where "sa = (if chg
    then s0\<lparr>stats := inc_counter user link (''content_changes'', True) (stats s0)\<rparr> else s0)"
  define sd where "sd = sa\<lparr>trace := trace sa @ concat (map (step_events e w user td) rs),
    stats := foldl (step_stats e w user link td) (stats sa) rs\<rparr>"
  have body: "check_updates_try e w user link s =
      then_do
        (if chg \<or> sent \<noteq> []
         then then_do (if notice \<noteq> [] then safe_send_message w user notice else no_op)
                (\<lambda>_. update_one user link (update_data (sha256_hex e c) (now w) sent))
         else no_op)
        (\<lambda>_. track_statistics ''checks'' user link True) sd"
    using t ns
    by (auto simp: check_updates_try_def suppressed_def g d then_do_def no_op_def
        track_statistics_ok valid_events_def deliver_all_run sa_def s0_def sd_def sent_def rs_def)
  have chg: "chg = (sha256_hex e c \<noteq> content_hash td)"
    using d by (auto simp: detect_changes_def split: if_splits)
  have c: "fst (get_webpage_content e w link) = c" by (simp add: g)
  have sent_nil: "(sent = []) =
      (filter (\<lambda>r. is_new td r \<and> fst (send_media e w user r td)) rs = [])"
    by (simp add: sent_def)
  have tr_sd: "trace sd = trace s @ cycle_events e w user link td"
    by (simp add: sd_def sa_def s0_def create_archive_def emit_def cycle_events_def cand)
  have urls_sd: "urls sd = urls s"
    by (simp add: sd_def sa_def s0_def create_archive_def emit_def)
  have st_sd: "counter_total (stats sd) user link (''downloads'', b) =
         counter_total (stats s) user link (''downloads'', b) +
         length (filter (\<lambda>r. is_new td r \<and> fst (send_media e w user r td) = b) rs)" for b
    by (simp add: sd_def sa_def s0_def create_archive_def emit_def step_stats_count
        counter_total_inc_other)
  show ?thesis
  proof (cases "chg \<or> sent \<noteq> []")
    case False
    with run body have "res = Inr ()"
      "s' = sd\<lparr>stats := inc_counter user link (''checks'', True) (stats sd)\<rparr>"
      by (auto simp: then_do_def no_op_def track_statistics_ok valid_events_def)
    with tr_sd urls_sd st_sd False chg sent_nil show ?thesis
      by (intro conjI exI [of _ "[]"]) (simp_all add: cand c counter_total_inc_other)
  next
    case True
    obtain rm sm where
      m: "(if notice \<noteq> [] then safe_send_message w user notice else no_op) sd = (rm, sm)"
      by (metis surj_pair)
    have "\<exists>evs. sm = emit evs sd \<and> handed evs = [] \<and> delivered evs = []"
    proof (cases "notice \<noteq> []")
      case True
      with m show ?thesis by (auto dest: safe_send_message_shape)
    next
      case False
      with m have "sm = emit [] sd" by (simp add: no_op_def emit_def)
      then show ?thesis by (intro exI [of _ "[]"]) simp
    qed
    then obtain evs where sm: "sm = emit evs sd" and h: "handed evs = []" "delivered evs = []"
      by blast
    from run body True m have r: "res \<noteq> Inr ()" "s' = sm"
      by (auto simp: then_do_def update_one_rejected split: sum.splits)
    from r sm tr_sd urls_sd st_sd h True chg sent_nil show ?thesis
      by (intro conjI exI [of _ evs]) (simp_all add: emit_def cand c)
  qed
qed

text \<open>
  The whole cycle adds, when the body failed, the count of a failed check and the error
  message. It returns normally when the body did, or when the error message can be sent.
\<close>

lemma check_updates_shape:
  assumes t: "urls s (user, link) = Some td" and ns: "\<not> suppressed td w"
    and run: "check_updates e w user link s = (res, s')"
  shows "\<exists>msgs. trace s' = trace s @ cycle_events e w user link td @ msgs \<and>
      handed msgs = [] \<and> delivered msgs = [] \<and>
      urls s' = urls s \<and>
      (\<forall>b. counter_total (stats s') user link (''downloads'', b) =
         counter_total (stats s) user link (''downloads'', b) +
         length (filter (\<lambda>r. is_new td r \<and> fst (send_media e w user r td) = b)
           (candidates e w user link))) \<and>
      (res = Inr ()) =
        (sha256_hex e (fst (get_webpage_content e w link)) = content_hash td \<and>
         filter (\<lambda>r. is_new td r \<and> fst (send_media e w user r td))
           (candidates e w user link) = [] \<or>
         text_ok w user (''Error checking '' @ link))"
proof -
  obtain r0 s0 where tried: "check_updates_try e w user link s = (r0, s0)" by (metis surj_pair)
  from check_updates_try_shape [OF t ns tried] obtain msgs where
    tr: "trace s0 = trace s @ cycle_events e w user link td @ msgs" and
    h: "handed msgs = []" "delivered msgs = []" and
    u: "urls s0 = urls s" and
    st: "\<forall>b. counter_total (stats s0) user link (''downloads'', b) =
         counter_total (stats s) user link (''downloads'', b) +
         length (filter (\<lambda>r. is_new td r \<and> fst (send_media e w user r td) = b)
           (candidates e w user link))" and
    ok: "(r0 = Inr ()) =
        (sha256_hex e (fst (get_webpage_content e w link)) = content_hash td \<and>
         filter (\<lambda>r. is_new td r \<and> fst (send_media e w user r td))
           (candidates e w user link) = [])"
    by blast
  show ?thesis
  proof (cases r0)
    case (Inr u0)
    with run tried have "res = Inr ()" "s' = s0"
      by (simp_all add: check_updates_def)
    with tr h u st ok Inr show ?thesis
      by (intro exI [of _ msgs]) simp
  next
    case (Inl err)
    define ev where "ev = MessageSend user (''Error checking '' @ link)
      (text_ok w user (''Error checking '' @ link))"
    from run tried Inl have s': "s' = emit [ev]
        (s0\<lparr>stats := inc_counter user link (''checks'', False) (stats s0)\<rparr>)"
      and res: "res = (if text_ok w user (''Error checking '' @ link) then Inr ()
        else Inl TransportError)"
      by (auto simp: check_updates_def then_do_def track_statistics_ok valid_events_def ev_def
          split: if_splits)
    from Inl ok have no: "\<not> (sha256_hex e (fst (get_webpage_content e w link)) = content_hash td \<and>
       filter (\<lambda>r. is_new td r \<and> fst (send_media e w user r td)) (candidates e w user link) = [])"
      by auto
    have hev: "handed [ev] = []" "delivered [ev] = []"
      by (simp_all add: ev_def handed_def delivered_def)
    from s' tr h u st no hev res show ?thesis
      by (intro exI [of _ "msgs @ [ev]"]) (auto simp: emit_def counter_total_inc_other)
  qed
qed

lemma check_updates_suppressed:
  "urls s (user, link) = Some td \<Longrightarrow> suppressed td w \<Longrightarrow>
   check_updates e w user link s =
     (Inr (), s\<lparr>stats := inc_counter user link (''checks'', False) (stats s)\<rparr>)"
  by (simp add: check_updates_def check_updates_try_def suppressed_def track_statistics_ok
      valid_events_def)

text \<open>No cycle changes a tracked document.\<close>

lemma check_updates_keeps_urls: "urls (snd (check_updates e w user link s)) = urls s"
proof (cases "urls s (user, link)")
  case None
  then show ?thesis by (simp add: check_updates_def check_updates_try_def)
next
  case (Some td)
  show ?thesis
  proof (cases "suppressed td w")
    case True
    with Some show ?thesis by (simp add: check_updates_suppressed)
  next
    case False
    have "check_updates e w user link s =
        (fst (check_updates e w user link s), snd (check_updates e w user link s))"
      by simp
    from check_updates_shape [OF Some False this] show ?thesis by blast
  qed
qed

section \<open>The check cycle: oversized downloads\<close>

lemma new_events_append: "trace s' = trace s @ evs \<Longrightarrow> new_events s s' = evs"
  by (simp add: new_events_def)

lemma cycle_events_handed:
  "handed (cycle_events e w user link td) =
     filter (\<lambda>r. is_new td r \<and>
       (ytdl_download w (res_url r) (download_path w r) \<or>
        direct_download w (res_url r) (download_path w r)) \<and>
       \<not> MAX_FILE_SIZE e < getsize w (download_path w r)) (candidates e w user link)"
  by (simp add: cycle_events_def step_events_handed handed_def [of "HttpGet link # evs" for evs]
      handed_def [symmetric])

lemma cycle_events_delivered:
  "delivered (cycle_events e w user link td) =
     filter (\<lambda>r. is_new td r \<and> fst (send_media e w user r td)) (candidates e w user link)"
  by (simp add: cycle_events_def step_events_delivered
      delivered_def [of "HttpGet link # evs" for evs] delivered_def [symmetric])

lemma send_media_oversized:
  "MAX_FILE_SIZE e < getsize w (download_path w r) \<Longrightarrow> \<not> fst (send_media e w user r td)"
  by (simp add: send_media_def download_path_def Let_def)

lemma send_media_starts_with_download:
  "\<exists>evs. snd (send_media e w user r td) = YtdlDownload (res_url r) (download_path w r) # evs"
  by (simp add: send_media_def download_path_def Let_def)

lemmas obs_defs = candidates_def is_new_def suppressed_def download_path_def new_events_def
  handed_def delivered_def counter_total_def or_zero_def

text \<open>
  Claim C6. Take a cycle that night mode does not suppress, a candidate \<open>r\<close> of the page
  whose fingerprint is not yet among the sent ones, and let every candidate with that
  fingerprint download to a file larger than \<open>MAX_FILE_SIZE\<close>. Then no resource with
  that fingerprint is handed to a send method in the cycle, the fingerprint is not in the
  stored \<open>sent_hashes\<close> afterwards, and the failure counter of the downloads has risen. In
  a following cycle that is not suppressed and finds \<open>r\<close> among its candidates again, the
  download of \<open>r\<close> is attempted again.
\<close>

theorem oversized_download:
  assumes t: "urls s (user, link) = Some td"
    and ns: "\<not> suppressed td w"
    and r: "r \<in> set (candidates e w user link)"
    and new: "is_new td r"
    and big: "list_all (\<lambda>r'. res_hash r' = res_hash r \<longrightarrow>
        MAX_FILE_SIZE e < getsize w (download_path w r')) (candidates e w user link)"
    and run: "check_updates e w user link s = (res, s')"
    and nsn: "\<not> suppressed td wn"
    and r2: "r \<in> set (candidates e wn user link)"
    and run2: "check_updates e wn user link s' = (resn, s'')"
  shows "list_all (\<lambda>r'. res_hash r' \<noteq> res_hash r) (handed (new_events s s')) \<and>
     (\<exists>td'. urls s' (user, link) = Some td' \<and> is_new td' r) \<and>
     counter_total (stats s) user link (''downloads'', False) <
       counter_total (stats s') user link (''downloads'', False) \<and>
     YtdlDownload (res_url r) (download_path wn r) \<in> set (new_events s' s'')"
proof -
  from check_updates_shape [OF t ns run] obtain msgs where
    tr: "trace s' = trace s @ cycle_events e w user link td @ msgs" and
    h: "handed msgs = []" and
    u: "urls s' = urls s" and
    st: "\<forall>b. counter_total (stats s') user link (''downloads'', b) =
         counter_total (stats s) user link (''downloads'', b) +
         length (filter (\<lambda>r. is_new td r \<and> fst (send_media e w user r td) = b)
           (candidates e w user link))"
    by blast
  have fails: "\<not> fst (send_media e w user r' td)"
    if "r' \<in> set (candidates e w user link)" "res_hash r' = res_hash r" for r'
  proof (rule send_media_oversized)
    from big that show "MAX_FILE_SIZE e < getsize w (download_path w r')"
      by (auto simp: list_all_iff)
  qed
  have ne: "new_events s s' = cycle_events e w user link td @ msgs"
    using tr by (rule new_events_append)
  have a: "list_all (\<lambda>r'. res_hash r' \<noteq> res_hash r) (handed (new_events s s'))"
    using big by (auto simp: ne h cycle_events_handed list_all_iff)
  from u t have td: "urls s' (user, link) = Some td"
    by simp
  have "r \<in> set (filter (\<lambda>r. is_new td r \<and> fst (send_media e w user r td) = False)
      (candidates e w user link))"
    using r new fails [OF r refl] by simp
  then have "0 < length (filter (\<lambda>r. is_new td r \<and> fst (send_media e w user r td) = False)
      (candidates e w user link))"
    by (metis length_pos_if_in_set)
  with st have c: "counter_total (stats s) user link (''downloads'', False) <
       counter_total (stats s') user link (''downloads'', False)"
    by simp
  from check_updates_shape [OF td nsn run2] obtain msgs2 where
    "trace s'' = trace s' @ cycle_events e wn user link td @ msgs2"
    by blast
  then have ne2: "new_events s' s'' = cycle_events e wn user link td @ msgs2"
    by (rule new_events_append)
  obtain evs where "snd (send_media e wn user r td) =
      YtdlDownload (res_url r) (download_path wn r) # evs"
    using send_media_starts_with_download by blast
  with new have "YtdlDownload (res_url r) (download_path wn r) \<in> set (step_events e wn user td r)"
    by (simp add: step_events_def)
  with r2 have d: "YtdlDownload (res_url r) (download_path wn r) \<in> set (new_events s' s'')"
    by (auto simp: ne2 cycle_events_def)
  from a td new c d show ?thesis by blast
qed

theorem oversized_download_witness:
  "urls (tracking fresh_target) (7, ''http://a/'') = Some fresh_target \<and>
   \<not> suppressed fresh_target world_big \<and>
   candidates env0 world_big 7 ''http://a/'' = [pdf_resource] \<and>
   is_new fresh_target pdf_resource \<and>
   MAX_FILE_SIZE env0 < getsize world_big (download_path world_big pdf_resource) \<and>
   handed (new_events (tracking fresh_target)
     (snd (check_updates env0 world_big 7 ''http://a/'' (tracking fresh_target)))) = [] \<and>
   map_option sent_hashes
     (urls (snd (check_updates env0 world_big 7 ''http://a/'' (tracking fresh_target)))
       (7, ''http://a/'')) = Some [] \<and>
   0 < counter_total (stats (snd (check_updates env0 world_big 7 ''http://a/''
     (tracking fresh_target)))) 7 ''http://a/'' (''downloads'', False) \<and>
   YtdlDownload ''http://a/x.pdf'' ''/tmp/d/x.pdf'' \<in> set (new_events
     (snd (check_updates env0 world_big 7 ''http://a/'' (tracking fresh_target)))
     (snd (check_updates env0 world_big 7 ''http://a/''
       (snd (check_updates env0 world_big 7 ''http://a/'' (tracking fresh_target))))))"
proof -
  define s1 where "s1 = snd (check_updates env0 world_big 7 ''http://a/'' (tracking fresh_target))"
  define s2 where "s2 = snd (check_updates env0 world_big 7 ''http://a/'' s1)"
  have h1: "urls (tracking fresh_target) (7, ''http://a/'') = Some fresh_target"
    by (simp add: tracking_def sys0_def)
  have h2: "\<not> suppressed fresh_target world_big"
    by (simp add: suppressed_def fresh_target_def)
  have c: "candidates env0 world_big 7 ''http://a/'' = [pdf_resource]"
    by (simp add: candidates_def cycle_defs example_defs world_big_def)
  have h3: "pdf_resource \<in> set (candidates env0 world_big 7 ''http://a/'')"
    by (simp add: c)
  have h4: "is_new fresh_target pdf_resource"
    by (simp add: is_new_def fresh_target_def)
  have sz: "MAX_FILE_SIZE env0 < getsize world_big (download_path world_big pdf_resource)"
    by (simp add: env0_def world_big_def world_noon_def)
  have h5: "list_all (\<lambda>r'. res_hash r' = res_hash pdf_resource \<longrightarrow>
      MAX_FILE_SIZE env0 < getsize world_big (download_path world_big r'))
      (candidates env0 world_big 7 ''http://a/'')"
    using sz by (simp add: c)
  have h6: "check_updates env0 world_big 7 ''http://a/'' (tracking fresh_target) =
      (fst (check_updates env0 world_big 7 ''http://a/'' (tracking fresh_target)), s1)"
    by (simp add: s1_def)
  have h9: "check_updates env0 world_big 7 ''http://a/'' s1 =
      (fst (check_updates env0 world_big 7 ''http://a/'' s1), s2)"
    by (simp add: s2_def)
  have st: "urls s1 (7, ''http://a/'') = Some fresh_target"
    by (simp add: s1_def check_updates_keeps_urls h1)
  from oversized_download [where s = "tracking fresh_target" and user = 7
      and link = "''http://a/''" and td = fresh_target and w = world_big and e = env0
      and r = pdf_resource and wn = world_big, OF h1 h2 h3 h4 h5 h6 h2 h3 h9]
  have "list_all (\<lambda>r'. res_hash r' \<noteq> res_hash pdf_resource)
       (handed (new_events (tracking fresh_target) s1))"
    and cnt: "counter_total (stats (tracking fresh_target)) 7 ''http://a/'' (''downloads'', False) <
       counter_total (stats s1) 7 ''http://a/'' (''downloads'', False)"
    and dl: "YtdlDownload (res_url pdf_resource) (download_path world_big pdf_resource)
       \<in> set (new_events s1 s2)"
    by simp_all
  have hd: "handed (new_events (tracking fresh_target) s1) = []"
    by (simp add: s1_def new_events_def handed_def cycle_defs example_defs world_big_def
        safe_send_message.simps)
  from dl have dl': "YtdlDownload ''http://a/x.pdf'' ''/tmp/d/x.pdf'' \<in> set (new_events s1 s2)"
    by (simp add: pdf_resource_def download_path_def world_big_def world_noon_def)
  from cnt have cnt': "0 < counter_total (stats s1) 7 ''http://a/'' (''downloads'', False)"
    by simp
  from h1 h2 c h4 sz hd st cnt' dl' show ?thesis
    unfolding s1_def s2_def by (simp add: fresh_target_def)
qed

section \<open>The check cycle: a failed fetch\<close>

text \<open>A fetch that fails is not seen by the cycle: it reads as a page without text or links.\<close>

lemma get_webpage_content_failed:
  "http_get w link = None \<Longrightarrow> get_webpage_content e w link = ([], [])"
  by (simp add: get_webpage_content_def)

text \<open>
  Claim C5. The claim says that a cycle whose fetch fails leaves the target as it was,
  counts a failed check and notifies nobody. The first two hold, the third does not.
  \<open>get_webpage_content\<close> catches the failure and returns the empty text, and the cycle
  goes on with it: the fingerprint of the empty text is not the stored one, so a change
  of content is counted and the user is told that the initial content was saved. The
  update of the target is then refused; the target stays as it was, the handler counts a
  failed check (and no successful one) and sends the user an error message. The target
  here has the fingerprint of \<open>v1\<close> stored and the server does not answer.
\<close>

theorem fetch_failure_taken_for_empty_page:
  "trace (snd (check_updates env0 world_offline 7 ''http://a/'' (tracking seen_v1))) =
     [HttpGet ''http://a/'',
      MessageSend 7 ''Initial Content Saved: http://a/'' True,
      MessageSend 7 ''Error checking http://a/'' True] \<and>
   urls (snd (check_updates env0 world_offline 7 ''http://a/'' (tracking seen_v1)))
     (7, ''http://a/'') = Some seen_v1 \<and>
   counter_total (stats (snd (check_updates env0 world_offline 7 ''http://a/'' (tracking seen_v1))))
     7 ''http://a/'' (''checks'', False) = 1 \<and>
   counter_total (stats (snd (check_updates env0 world_offline 7 ''http://a/'' (tracking seen_v1))))
     7 ''http://a/'' (''checks'', True) = 0 \<and>
   counter_total (stats (snd (check_updates env0 world_offline 7 ''http://a/'' (tracking seen_v1))))
     7 ''http://a/'' (''content_changes'', True) = 1"
  by (simp add: cycle_defs example_defs safe_send_message.simps counter_total_def or_zero_def)

section \<open>The check cycle: change detection\<close>

text \<open>
  The detector reports a diff only for a target that has a stored snapshot, the field
  \<open>content\<close>. The update document of the cycle does not name that field, so that even an
  update that were accepted would store no snapshot.
\<close>

lemma detect_changes_without_snapshot:
  "content td = [] \<Longrightarrow>
   detect_changes e td link c =
     (if sha256_hex e c \<noteq> content_hash td then (True, ''Initial Content Saved: '' @ link)
      else (False, []))"
  by (simp add: detect_changes_def)

lemma update_data_names_no_content: "map_of (update_data h t sent) ''content'' = None"
  by (simp add: update_data_def)

text \<open>
  Claim C2. The claim says that the initial-snapshot outcome is reported once, and that a
  later check whose fingerprint differs reports a diff. Two cycles on a new target, the
  page reading \<open>v1\<close> and then \<open>v2\<close>: each of them reports the initial snapshot, and the
  update that follows the report is refused, which the error message shows. After both
  cycles the target is the new target still, without a snapshot and without a
  fingerprint of the content. No later check can report a diff.
\<close>

theorem later_change_reported_as_initial_snapshot:
  "trace (snd (check_updates env0 world_later 7 ''http://a/''
      (snd (check_updates env0 world_noon 7 ''http://a/'' (tracking fresh_target))))) =
     [HttpGet ''http://a/'',
      YtdlDownload ''http://a/x.pdf'' ''/tmp/d/x.pdf'',
      MediaSend send_document 7 ''/tmp/d/x.pdf'' pdf_resource True,
      MessageSend 7 ''Initial Content Saved: http://a/'' True,
      MessageSend 7 ''Error checking http://a/'' True,
      HttpGet ''http://a/'',
      YtdlDownload ''http://a/x.pdf'' ''/tmp/d/x.pdf'',
      MediaSend send_document 7 ''/tmp/d/x.pdf'' pdf_resource True,
      MessageSend 7 ''Initial Content Saved: http://a/'' True,
      MessageSend 7 ''Error checking http://a/'' True] \<and>
   urls (snd (check_updates env0 world_noon 7 ''http://a/'' (tracking fresh_target)))
      (7, ''http://a/'') = Some fresh_target \<and>
   urls (snd (check_updates env0 world_later 7 ''http://a/''
      (snd (check_updates env0 world_noon 7 ''http://a/'' (tracking fresh_target)))))
      (7, ''http://a/'') = Some fresh_target \<and>
   content fresh_target = [] \<and> content_hash fresh_target = []"
  by (simp add: cycle_defs example_defs safe_send_message.simps)

section \<open>The check cycle: repeated delivery\<close>

text \<open>
  Within a cycle the claim's test is the one the code makes: a resource whose fingerprint
  is among the stored \<open>sent_hashes\<close> causes no download and no send, and the list that
  the cycle collects holds the fingerprints of the resources whose send returned true.
\<close>

lemma step_events_sent:
  "res_hash r \<in> set (sent_hashes td) \<Longrightarrow> step_events e w user td r = []"
  by (simp add: step_events_def is_new_def)

lemma deliver_all_collects:
  "fst (deliver_all e w user link td rs [] s) =
     Inr (map res_hash (filter (\<lambda>r. is_new td r \<and> fst (send_media e w user r td)) rs))"
  by (simp add: deliver_all_run)

text \<open>
  Claim C1. The claim ends: two consecutive check cycles over an unchanged resource list
  deliver each resource exactly once. The stored \<open>sent_hashes\<close> never grow, since the
  update that should append to them is refused. A target whose stored fingerprint is
  that of the page, and a page that does not change and links one PDF: each of two
  cycles downloads the PDF and sends it, and each ends with the error message; after
  the first cycle (and so after the second) the target is as it was, with no fingerprint
  among its \<open>sent_hashes\<close>.
\<close>

theorem unchanged_resource_delivered_twice:
  "trace (snd (check_updates env0 world_noon 7 ''http://a/''
      (snd (check_updates env0 world_noon 7 ''http://a/'' (tracking seen_v1))))) =
     [HttpGet ''http://a/'',
      YtdlDownload ''http://a/x.pdf'' ''/tmp/d/x.pdf'',
      MediaSend send_document 7 ''/tmp/d/x.pdf'' pdf_resource True,
      MessageSend 7 ''Error checking http://a/'' True,
      HttpGet ''http://a/'',
      YtdlDownload ''http://a/x.pdf'' ''/tmp/d/x.pdf'',
      MediaSend send_document 7 ''/tmp/d/x.pdf'' pdf_resource True,
      MessageSend 7 ''Error checking http://a/'' True] \<and>
   urls (snd (check_updates env0 world_noon 7 ''http://a/'' (tracking seen_v1)))
      (7, ''http://a/'') = Some seen_v1 \<and>
   sent_hashes seen_v1 = []"
  by (simp add: cycle_defs example_defs safe_send_message.simps)

end
